theory Spec2Isabelle
  imports Main "HOL-Library.Multiset" "HOL-Library.Char_ord" "HOL-Library.List_Lexorder"
begin

section \<open>The miner of FLock-subnet (miner.py)\<close>

text \<open>
  The theory embeds \<^verbatim>\<open>miner.py\<close>: the daily time gate \<^verbatim>\<open>wait_until\<close>, the
  dataset refresh (\<^verbatim>\<open>download_dataset\<close>, \<^verbatim>\<open>load_dataset\<close>), the submission builder
  \<^verbatim>\<open>make_submission\<close> and \<^verbatim>\<open>main\<close> with its announce loop. Everything the
  program does to the outside (files, clock, sleeps, calls of the collaborators) is a
  field of an explicit world; every raise is a value.
\<close>

subsection \<open>Exceptions\<close>

text \<open>
  The exceptions the program can meet. The first four are instances of Python's class
  \<^verbatim>\<open>Exception\<close>; \<open>OtherException\<close> stands for any further instance of it, raised by a
  collaborator, with its message. The last three derive from \<^verbatim>\<open>BaseException\<close> only
  (\<^verbatim>\<open>asyncio.CancelledError\<close> since Python 3.8), so a handler \<^verbatim>\<open>except Exception\<close>
  does not catch them.
\<close>

datatype py_exception =
    ValueError
  | OverflowError
  | FileNotFoundError
  | OtherException string
  | KeyboardInterrupt
  | SystemExit
  | CancelledError

fun is_Exception :: "py_exception \<Rightarrow> bool" where
  "is_Exception KeyboardInterrupt = False"
| "is_Exception SystemExit = False"
| "is_Exception CancelledError = False"
| "is_Exception _ = True"

subsection \<open>Strings\<close>

text \<open>
  A \<open>char\<close> is read as the code point of the same number (0 to 255).
  \<^verbatim>\<open>str.strip()\<close> removes the characters for which \<^verbatim>\<open>str.isspace\<close> holds;
  \<^verbatim>\<open>int()\<close> skips a smaller set around the literal (not the separators 0x1C to 0x1F).
\<close>

definition py_isspace :: "char \<Rightarrow> bool" where
  "py_isspace c = ((of_char c :: nat) \<in> {9, 10, 11, 12, 13, 28, 29, 30, 31, 32, 133, 160})"

definition int_isspace :: "char \<Rightarrow> bool" where
  "int_isspace c = ((of_char c :: nat) \<in> {9, 10, 11, 12, 13, 32, 133, 160})"

definition strip_with :: "(char \<Rightarrow> bool) \<Rightarrow> string \<Rightarrow> string" where
  "strip_with sp s = rev (dropWhile sp (rev (dropWhile sp s)))"

definition py_strip :: "string \<Rightarrow> string" where
  "py_strip s = strip_with py_isspace s"

text \<open>\<^verbatim>\<open>s.split(":")\<close>: the fields between the colons, at least one field.\<close>

fun split_colon :: "string \<Rightarrow> string list" where
  "split_colon [] = [[]]"
| "split_colon (c # cs) =
     (if c = CHR '':'' then [] # split_colon cs
      else (case split_colon cs of
              p # ps \<Rightarrow> (c # p) # ps
            | [] \<Rightarrow> [[c]]))"

definition is_digit :: "char \<Rightarrow> bool" where
  "is_digit c = (48 \<le> (of_char c :: nat) \<and> (of_char c :: nat) \<le> 57)"

definition digit_value :: "char \<Rightarrow> int" where
  "digit_value c = int (of_char c) - 48"

text \<open>The decimal literal of \<^verbatim>\<open>int()\<close>: digits, single underscores between digits.\<close>

fun int_literal :: "string \<Rightarrow> bool" where
  "int_literal [] = False"
| "int_literal [c] = is_digit c"
| "int_literal (c # d # r) =
     (is_digit c \<and> (if d = CHR ''_'' then int_literal r else int_literal (d # r)))"

definition digits_value :: "string \<Rightarrow> int" where
  "digits_value s = foldl (\<lambda>acc c. 10 * acc + digit_value c) 0 (filter is_digit s)"

definition max_str_digits :: nat where
  "max_str_digits = 4300"

text \<open>
  \<^verbatim>\<open>int(s)\<close> on a string, base 10: surrounding white space, one optional sign, the
  literal; more than 4300 digits are refused (the default limit of CPython 3.11).
  Every refusal is a \<^verbatim>\<open>ValueError\<close>.
\<close>

definition py_int :: "string \<Rightarrow> py_exception + int" where
  "py_int s =
     (let t = strip_with int_isspace s;
          neg = (t \<noteq> [] \<and> hd t = CHR ''-'');
          body = (if t \<noteq> [] \<and> (hd t = CHR ''-'' \<or> hd t = CHR ''+'') then tl t else t)
      in if int_literal body \<and> length (filter is_digit body) \<le> max_str_digits
         then Inr ((if neg then - 1 else 1) * digits_value body)
         else Inl ValueError)"

text \<open>\<^verbatim>\<open>str(n)\<close> of a natural number and of an integer.\<close>

definition digit_char :: "nat \<Rightarrow> char" where
  "digit_char d = char_of (48 + d)"

fun str_nat :: "nat \<Rightarrow> string" where
  "str_nat n = (if n < 10 then [digit_char n] else str_nat (n div 10) @ [digit_char (n mod 10)])"

declare str_nat.simps [simp del]

definition str_int :: "int \<Rightarrow> string" where
  "str_int i = (if i < 0 then CHR ''-'' # str_nat (nat (- i)) else str_nat (nat i))"

subsection \<open>Dates and times\<close>

text \<open>
  The fields of \<^verbatim>\<open>datetime.date\<close>, \<^verbatim>\<open>datetime.time\<close> and \<^verbatim>\<open>datetime.datetime\<close>
  (naive, no time zone, as \<^verbatim>\<open>datetime.now()\<close> returns them).
\<close>

record pydate =
  year :: int
  month :: int
  day :: int

record pytime =
  hour :: int
  minute :: int
  second :: int
  microsecond :: int

record datetime =
  date :: pydate
  timeofday :: pytime

definition c_int :: "int \<Rightarrow> bool" where
  "c_int n = (- 2147483648 \<le> n \<and> n \<le> 2147483647)"

text \<open>
  The constructor \<^verbatim>\<open>datetime.time(hour, minute, second)\<close>: the arguments are converted
  to C ints first (\<^verbatim>\<open>OverflowError\<close> beyond 32 bits), then checked field by field
  (\<^verbatim>\<open>ValueError\<close>). The microsecond is 0.
\<close>

definition dt_time :: "int \<Rightarrow> int \<Rightarrow> int \<Rightarrow> py_exception + pytime" where
  "dt_time h m s =
     (if \<not> (c_int h \<and> c_int m \<and> c_int s) then Inl OverflowError
      else if \<not> (0 \<le> h \<and> h \<le> 23) then Inl ValueError
      else if \<not> (0 \<le> m \<and> m \<le> 59) then Inl ValueError
      else if \<not> (0 \<le> s \<and> s \<le> 59) then Inl ValueError
      else Inr \<lparr>hour = h, minute = m, second = s, microsecond = 0\<rparr>)"

definition combine :: "pydate \<Rightarrow> pytime \<Rightarrow> datetime" where
  "combine d t = \<lparr>date = d, timeofday = t\<rparr>"

text \<open>Comparison of two datetimes is the comparison of their field tuples.\<close>

definition dt_fields :: "datetime \<Rightarrow> int list" where
  "dt_fields x =
     [year (date x), month (date x), day (date x),
      hour (timeofday x), minute (timeofday x), second (timeofday x),
      microsecond (timeofday x)]"

definition dt_le :: "datetime \<Rightarrow> datetime \<Rightarrow> bool" where
  "dt_le a b = (dt_fields a \<le> dt_fields b)"


text \<open>The proleptic Gregorian calendar of the datetime module.\<close>

definition is_leap :: "int \<Rightarrow> bool" where
  "is_leap y = (y mod 4 = 0 \<and> (y mod 100 \<noteq> 0 \<or> y mod 400 = 0))"

definition days_in_month :: "int \<Rightarrow> int \<Rightarrow> int" where
  "days_in_month y m =
     (if m = 2 then (if is_leap y then 29 else 28)
      else if m = 4 \<or> m = 6 \<or> m = 9 \<or> m = 11 then 30 else 31)"

definition days_before_year :: "int \<Rightarrow> int" where
  "days_before_year y = (y - 1) * 365 + (y - 1) div 4 - (y - 1) div 100 + (y - 1) div 400"

definition days_before_month :: "int \<Rightarrow> int \<Rightarrow> int" where
  "days_before_month y m =
     ([0, 0, 31, 59, 90, 120, 151, 181, 212, 243, 273, 304, 334] ! nat m)
       + (if m > 2 \<and> is_leap y then 1 else 0)"

definition toordinal :: "pydate \<Rightarrow> int" where
  "toordinal d = days_before_year (year d) + days_before_month (year d) (month d) + day d"

definition valid_date :: "pydate \<Rightarrow> bool" where
  "valid_date d = (1 \<le> month d \<and> month d \<le> 12 \<and> 1 \<le> day d
                   \<and> day d \<le> days_in_month (year d) (month d))"

definition valid_time :: "pytime \<Rightarrow> bool" where
  "valid_time t = (0 \<le> hour t \<and> hour t \<le> 23 \<and> 0 \<le> minute t \<and> minute t \<le> 59
                   \<and> 0 \<le> second t \<and> second t \<le> 59
                   \<and> 0 \<le> microsecond t \<and> microsecond t \<le> 999999)"

definition valid_datetime :: "datetime \<Rightarrow> bool" where
  "valid_datetime x = (valid_date (date x) \<and> valid_time (timeofday x))"

text \<open>
  \<^verbatim>\<open>d + timedelta(days=1)\<close>: the day after \<open>d\<close>. Years are unbounded integers here;
  the end of the datetime range (year 9999) is outside the model.
\<close>

definition next_day :: "pydate \<Rightarrow> pydate" where
  "next_day d =
     (if day d < days_in_month (year d) (month d) then d\<lparr>day := day d + 1\<rparr>
      else if month d < 12 then d\<lparr>month := month d + 1, day := 1\<rparr>
      else \<lparr>year = year d + 1, month = 1, day = 1\<rparr>)"

definition add_one_day :: "datetime \<Rightarrow> datetime" where
  "add_one_day x = x\<lparr>date := next_day (date x)\<rparr>"

definition time_us :: "pytime \<Rightarrow> int" where
  "time_us t = ((hour t * 60 + minute t) * 60 + second t) * 1000000 + microsecond t"

definition day_us :: int where
  "day_us = 86400000000"

text \<open>\<open>a - b\<close> as a \<^verbatim>\<open>timedelta\<close>, in microseconds.\<close>

definition dt_diff_us :: "datetime \<Rightarrow> datetime \<Rightarrow> int" where
  "dt_diff_us a b =
     (toordinal (date a) - toordinal (date b)) * day_us
       + (time_us (timeofday a) - time_us (timeofday b))"

subsection \<open>The world of the program\<close>

text \<open>
  What the program does to the outside, in the order it does it. Status lines are left
  out, apart from the two that carry a value a property speaks about: the line of
  \<^verbatim>\<open>wait_until\<close> with the scheduled instant, and the lines that log a caught exception.
\<close>

datatype event =
    Rmtree string
  | Makedirs string
  | SnapshotDownload string string string
  | Rename string string
  | FileWrite string
  | Upload string string
  | Announce string string
  | Sleep int
  | LogError py_exception
  | Scheduled datetime int

text \<open>
  A file is the sequence of its records (one JSON value a line), named by the path the
  program hands to the operating system; two paths name the same file when they are the
  same string. \<open>now_calls\<close> counts the calls of \<^verbatim>\<open>datetime.now()\<close> and
  \<open>announce_calls\<close> the calls of \<^verbatim>\<open>chain.store_model_metadata\<close> made so far.
  Sleeps are in microseconds.
\<close>

record 'r world =
  files :: "string \<rightharpoonup> 'r list"
  now_calls :: nat
  announce_calls :: nat
  trace :: "event list"

record model_id =
  namespace :: string
  commit :: string
  competition_id :: string

text \<open>
  The collaborators of \<^verbatim>\<open>miner.py\<close>, none of them under src/: the system clock, the
  random source of \<^verbatim>\<open>random.shuffle\<close>, the set-up of lines 125 to 134 (wallet,
  subtensor, metagraph, \<^verbatim>\<open>assert_registered\<close>), \<^verbatim>\<open>Competition.from_defaults()\<close>,
  \<^verbatim>\<open>constants.eval_commit\<close>, \<^verbatim>\<open>get_hg_revision\<close>, \<^verbatim>\<open>api.snapshot_download\<close>
  (the files it delivers below the target directory, and the exception it ends with, if
  any), \<^verbatim>\<open>model.upload_data\<close>, \<^verbatim>\<open>chain.store_model_metadata\<close> (its outcome at
  each call, counted from 0) and \<^verbatim>\<open>ModelId.to_compressed_str\<close>.
\<close>

record 'r env =
  clock :: "nat \<Rightarrow> datetime"
  rng :: "nat \<Rightarrow> nat"
  preflight :: "py_exception option"
  competition_repo :: string
  competition_ident :: string
  eval_commit :: string
  get_hg_revision :: "string \<Rightarrow> string \<Rightarrow> py_exception + string"
  snapshot_download :: "string \<Rightarrow> string \<Rightarrow> (string \<times> 'r list) list \<times> py_exception option"
  upload_data :: "string \<Rightarrow> string \<Rightarrow> 'r list \<Rightarrow> py_exception + string"
  store_model_metadata :: "nat \<Rightarrow> string \<Rightarrow> string \<Rightarrow> py_exception option"
  to_compressed_str :: "model_id \<Rightarrow> string"

record config =
  eval_data_dir :: string
  eval_file :: string
  submission_dir :: string
  submission_size :: "int option"
  run_at :: "string option"
  hf_repo_id :: string
  netuid :: string

definition emit :: "event list \<Rightarrow> 'r world \<Rightarrow> 'r world" where
  "emit es w = w\<lparr>trace := trace w @ es\<rparr>"

definition datetime_now :: "'r env \<Rightarrow> 'r world \<Rightarrow> datetime \<times> 'r world" where
  "datetime_now E w = (clock E (now_calls w), w\<lparr>now_calls := Suc (now_calls w)\<rparr>)"

text \<open>\<^verbatim>\<open>time.sleep(d)\<close> raises \<^verbatim>\<open>ValueError\<close> on a negative length.\<close>

definition time_sleep :: "int \<Rightarrow> 'r world \<Rightarrow> (py_exception + unit) \<times> 'r world" where
  "time_sleep d w = (if d < 0 then (Inl ValueError, w) else (Inr (), emit [Sleep d] w))"

subsection \<open>wait_until\<close>

text \<open>Lines 75 to 81: the target time of day, or the exception raised on the way.\<close>

definition parse_run_at :: "string \<Rightarrow> py_exception + pytime" where
  "parse_run_at s =
     (let parts = split_colon (py_strip s) in
      if length parts = 2 then
        (case py_int (parts ! 0) of
           Inl e \<Rightarrow> Inl e
         | Inr h \<Rightarrow>
             (case py_int (parts ! 1) of
                Inl e \<Rightarrow> Inl e
              | Inr m \<Rightarrow> dt_time h m 0))
      else if length parts = 3 then
        (case py_int (parts ! 0) of
           Inl e \<Rightarrow> Inl e
         | Inr h \<Rightarrow>
             (case py_int (parts ! 1) of
                Inl e \<Rightarrow> Inl e
              | Inr m \<Rightarrow>
                  (case py_int (parts ! 2) of
                     Inl e \<Rightarrow> Inl e
                   | Inr sec \<Rightarrow> dt_time h m sec)))
      else Inl ValueError)"

text \<open>Lines 83 to 86: today at the target time, or tomorrow when that is not after now.\<close>

definition run_at_dt :: "pytime \<Rightarrow> datetime \<Rightarrow> datetime" where
  "run_at_dt target now =
     (let r = combine (date now) target in
      if dt_le r now then add_one_day r else r)"

definition wait_until :: "'r env \<Rightarrow> string \<Rightarrow> 'r world \<Rightarrow> (py_exception + unit) \<times> 'r world" where
  "wait_until E s w =
     (case parse_run_at s of
        Inl e \<Rightarrow> (Inl e, w)
      | Inr target \<Rightarrow>
          (let (now, w1) = datetime_now E w;
               r = run_at_dt target now;
               delta = dt_diff_us r now
           in time_sleep delta (emit [Scheduled r delta] w1)))"

text \<open>
  The schedule strings in the words of the specification: two or three fields between
  colons, each an integer, the hour in 0..23, minute and second in 0..59.
\<close>

definition schedule_ints :: "string \<Rightarrow> int list option" where
  "schedule_ints s =
     (let fs = map py_int (split_colon (py_strip s)) in
      if list_ex isl fs then None
      else Some (map projr fs))"

definition well_formed_schedule :: "string \<Rightarrow> bool" where
  "well_formed_schedule s =
     (case schedule_ints s of
        Some [h, m] \<Rightarrow> 0 \<le> h \<and> h \<le> 23 \<and> 0 \<le> m \<and> m \<le> 59
      | Some [h, m, sec] \<Rightarrow> 0 \<le> h \<and> h \<le> 23 \<and> 0 \<le> m \<and> m \<le> 59 \<and> 0 \<le> sec \<and> sec \<le> 59
      | _ \<Rightarrow> False)"


subsection \<open>Paths and files\<close>

text \<open>
  \<^verbatim>\<open>os.path.join(a, b)\<close> on POSIX, and the paths that lie below a directory.
  \<^verbatim>\<open>os.path.abspath\<close> (lines 25 and 26) changes the spelling of a directory, not the
  directory, so it does not appear: every path is read against the one working directory.
\<close>

definition dirprefix :: "string \<Rightarrow> string" where
  "dirprefix d = (if d = [] \<or> last d = CHR ''/'' then d else d @ ''/'')"

definition os_path_join :: "string \<Rightarrow> string \<Rightarrow> string" where
  "os_path_join a b = (if b \<noteq> [] \<and> hd b = CHR ''/'' then b else dirprefix a @ b)"

definition in_dir :: "string \<Rightarrow> string \<Rightarrow> bool" where
  "in_dir d p = (length (dirprefix d) < length p \<and> take (length (dirprefix d)) p = dirprefix d)"

text \<open>\<^verbatim>\<open>shutil.rmtree(d, ignore_errors=True)\<close>: every file below \<open>d\<close> is gone.\<close>

definition rmtree :: "string \<Rightarrow> 'r world \<Rightarrow> 'r world" where
  "rmtree d w = emit [Rmtree d] (w\<lparr>files := (\<lambda>p. if in_dir d p then None else files w p)\<rparr>)"

text \<open>\<^verbatim>\<open>os.makedirs(d, exist_ok=True)\<close>; directories carry no state of their own here.\<close>

definition makedirs :: "string \<Rightarrow> 'r world \<Rightarrow> 'r world" where
  "makedirs d w = emit [Makedirs d] w"

text \<open>\<^verbatim>\<open>os.rename(src, dst)\<close> raises \<^verbatim>\<open>FileNotFoundError\<close> when \<open>src\<close> is missing.\<close>

definition os_rename :: "string \<Rightarrow> string \<Rightarrow> 'r world \<Rightarrow> (py_exception + unit) \<times> 'r world" where
  "os_rename src dst w =
     (case files w src of
        None \<Rightarrow> (Inl FileNotFoundError, w)
      | Some c \<Rightarrow> (Inr (), emit [Rename src dst] (w\<lparr>files := (files w)(src := None, dst \<mapsto> c)\<rparr>)))"

text \<open>
  Modelled from the spec: \<^verbatim>\<open>load_jsonl\<close> of \<^verbatim>\<open>flockoff.validator.validator_utils\<close> is
  not under src/; the specification has it load the ordered sequence of record objects
  of a local file. A missing file is a \<^verbatim>\<open>FileNotFoundError\<close>.
\<close>

definition load_jsonl :: "string \<Rightarrow> 'r world \<Rightarrow> py_exception + 'r list" where
  "load_jsonl path w = (case files w path of None \<Rightarrow> Inl FileNotFoundError | Some recs \<Rightarrow> Inr recs)"

subsection \<open>download_dataset and load_dataset\<close>

definition deliver :: "string \<Rightarrow> (string \<times> 'r list) list \<Rightarrow> (string \<rightharpoonup> 'r list) \<Rightarrow> (string \<rightharpoonup> 'r list)" where
  "deliver d fs m = foldl (\<lambda>m (n, c). m(os_path_join d n \<mapsto> c)) m fs"

definition download_dataset ::
  "'r env \<Rightarrow> string \<Rightarrow> string \<Rightarrow> string \<Rightarrow> bool \<Rightarrow> 'r world \<Rightarrow> (py_exception + unit) \<times> 'r world" where
  "download_dataset E nspace revision local_dir force w =
     (let w1 = (if force then rmtree local_dir w else w);
          w2 = makedirs local_dir w1;
          (delivered, exc) = snapshot_download E nspace revision;
          w3 = emit [SnapshotDownload nspace local_dir revision]
                 (w2\<lparr>files := deliver local_dir delivered (files w2)\<rparr>)
      in case exc of
           None \<Rightarrow> (Inr (), w3)
         | Some e \<Rightarrow>
             if is_Exception e then (Inr (), emit [LogError e] w3)
             else (Inl e, w3))"

definition load_dataset ::
  "'r env \<Rightarrow> string \<Rightarrow> string \<Rightarrow> 'r world \<Rightarrow> (py_exception + unit) \<times> 'r world" where
  "load_dataset E eval_dir eval_name w =
     (let eval_namespace = competition_repo E in
      case get_hg_revision E eval_namespace (eval_commit E) of
        Inl e \<Rightarrow> (Inl e, w)
      | Inr main_commit_id \<Rightarrow>
          (case download_dataset E eval_namespace main_commit_id eval_dir True w of
             (Inl e, w1) \<Rightarrow> (Inl e, w1)
           | (Inr u, w1) \<Rightarrow>
               os_rename (os_path_join eval_dir ''data.jsonl'') (os_path_join eval_dir eval_name) w1))"

subsection \<open>make_submission\<close>

text \<open>
  \<^verbatim>\<open>random.shuffle\<close>: for \<open>i\<close> from the last index down to 1, swap the elements at \<open>i\<close>
  and at \<^verbatim>\<open>randbelow(i + 1)\<close>. \<open>rnd i\<close> is the raw value behind the draw made at index
  \<open>i\<close>; the draw is its residue, so it lies in \<open>0..i\<close>.
\<close>

primrec shuffle_loop :: "(nat \<Rightarrow> nat) \<Rightarrow> nat \<Rightarrow> 'a list \<Rightarrow> 'a list" where
  "shuffle_loop rnd 0 xs = xs"
| "shuffle_loop rnd (Suc i) xs =
     (let j = rnd (Suc i) mod (Suc (Suc i)) in
      shuffle_loop rnd i (xs[Suc i := xs ! j, j := xs ! Suc i]))"

definition random_shuffle :: "(nat \<Rightarrow> nat) \<Rightarrow> 'a list \<Rightarrow> 'a list" where
  "random_shuffle rnd xs = shuffle_loop rnd (length xs - 1) xs"

text \<open>The slice \<^verbatim>\<open>xs[:k]\<close>; a negative \<open>k\<close> counts from the end.\<close>

definition slice_to :: "'a list \<Rightarrow> int \<Rightarrow> 'a list" where
  "slice_to xs k = (if 0 \<le> k then take (nat k) xs else take (nat (int (length xs) + k)) xs)"

definition pad2 :: "int \<Rightarrow> string" where
  "pad2 n = [digit_char (nat n div 10), digit_char (nat n mod 10)]"

text \<open>
  \<^verbatim>\<open>strftime("%Y%m%d%H")\<close>: the year in decimal (four digits from the year 1000 on),
  then month, day and hour with two digits each.
\<close>

definition strftime_YmdH :: "datetime \<Rightarrow> string" where
  "strftime_YmdH x =
     str_nat (nat (year (date x))) @ pad2 (month (date x)) @ pad2 (day (date x))
       @ pad2 (hour (timeofday x))"

definition make_submission ::
  "'r env \<Rightarrow> string \<Rightarrow> string \<Rightarrow> string \<Rightarrow> int option \<Rightarrow> 'r world \<Rightarrow> (py_exception + string) \<times> 'r world" where
  "make_submission E eval_dir eval_name sub_dir sub_size w =
     (case load_jsonl (os_path_join eval_dir eval_name) w of
        Inl e \<Rightarrow> (Inl e, w)
      | Inr loaded \<Rightarrow>
          (let shuffled = random_shuffle (rng E) loaded;
               eval_data = (case sub_size of None \<Rightarrow> shuffled | Some k \<Rightarrow> slice_to shuffled k);
               w1 = makedirs sub_dir w;
               (now, w2) = datetime_now E w1;
               date = strftime_YmdH now;
               submission_file =
                 (case sub_size of
                    Some k \<Rightarrow> ''submission_'' @ date @ ''_'' @ str_int k @ ''.jsonl''
                  | None \<Rightarrow> ''submission_'' @ date @ ''.jsonl'');
               path = os_path_join sub_dir submission_file;
               w3 = emit [FileWrite path] (w2\<lparr>files := (files w2)(path \<mapsto> eval_data)\<rparr>)
           in (Inr path, w3)))"

subsection \<open>main\<close>

text \<open>Lines 136 to 143: the name of this period's eval file, and the refresh when it is missing.\<close>

definition refresh_gate ::
  "'r env \<Rightarrow> config \<Rightarrow> 'r world \<Rightarrow> (py_exception + string) \<times> 'r world" where
  "refresh_gate E cfg w =
     (let (t, w1) = datetime_now E w;
          now = strftime_YmdH t;
          eval_name = ''eval_data_'' @ now @ ''.jsonl''
      in if files w1 (os_path_join (eval_data_dir cfg) eval_name) = None then
           (case load_dataset E (eval_data_dir cfg) eval_name w1 of
              (Inl e, w2) \<Rightarrow> (Inl e, w2)
            | (Inr u, w2) \<Rightarrow> (Inr eval_name, w2))
         else (Inr eval_name, w1))"

text \<open>
  Lines 125 to 159: all of \<^verbatim>\<open>main\<close> before the announce loop. \<^verbatim>\<open>make_submission\<close> is
  called with three arguments, so its \<^verbatim>\<open>submission_size\<close> is the default \<^verbatim>\<open>None\<close>.
\<close>

definition main_prepare ::
  "'r env \<Rightarrow> config \<Rightarrow> 'r world \<Rightarrow> (py_exception + model_id) \<times> 'r world" where
  "main_prepare E cfg w =
     (case preflight E of
        Some e \<Rightarrow> (Inl e, w)
      | None \<Rightarrow>
          (case refresh_gate E cfg w of
             (Inl e, w1) \<Rightarrow> (Inl e, w1)
           | (Inr eval_name, w1) \<Rightarrow>
               (case make_submission E (eval_data_dir cfg) eval_name (submission_dir cfg) None w1 of
                  (Inl e, w2) \<Rightarrow> (Inl e, w2)
                | (Inr submission_file_path, w2) \<Rightarrow>
                    (let body = (case files w2 submission_file_path of None \<Rightarrow> [] | Some c \<Rightarrow> c);
                         w3 = emit [Upload (hf_repo_id cfg) submission_file_path] w2
                     in case upload_data E (hf_repo_id cfg) submission_file_path body of
                          Inl e \<Rightarrow> (Inl e, w3)
                        | Inr commit_id \<Rightarrow>
                            (Inr \<lparr>namespace = hf_repo_id cfg, commit = commit_id,
                                  competition_id = competition_ident E\<rparr>, w3)))))"

text \<open>
  Lines 162 to 176, the announce loop. \<open>None\<close> is the loop that never ends. The sleep
  of 120 seconds is written in microseconds.
\<close>

partial_function (option) commit_loop ::
  "'r env \<Rightarrow> string \<Rightarrow> model_id \<Rightarrow> 'r world \<Rightarrow> ((py_exception + unit) \<times> 'r world) option" where
  "commit_loop E uid mid w =
     (let payload = to_compressed_str E mid;
          k = announce_calls w;
          w1 = emit [Announce uid payload] (w\<lparr>announce_calls := Suc k\<rparr>)
      in case store_model_metadata E k uid payload of
           None \<Rightarrow> Some (Inr (), w1)
         | Some e \<Rightarrow>
             if is_Exception e
             then commit_loop E uid mid (emit [LogError e, Sleep (120 * 1000000)] w1)
             else Some (Inl e, w1))"

definition main ::
  "'r env \<Rightarrow> config \<Rightarrow> 'r world \<Rightarrow> ((py_exception + unit) \<times> 'r world) option" where
  "main E cfg w =
     (case main_prepare E cfg w of
        (Inl e, w1) \<Rightarrow> Some (Inl e, w1)
      | (Inr model_id_with_commit, w1) \<Rightarrow> commit_loop E (netuid cfg) model_id_with_commit w1)"

text \<open>Lines 179 to 187: one run, or a run a day for ever when \<^verbatim>\<open>--run-at\<close> is given.\<close>

partial_function (option) run_daily ::
  "'r env \<Rightarrow> config \<Rightarrow> string \<Rightarrow> 'r world \<Rightarrow> ((py_exception + unit) \<times> 'r world) option" where
  "run_daily E cfg s w =
     (case wait_until E s w of
        (Inl e, w1) \<Rightarrow> Some (Inl e, w1)
      | (Inr u, w1) \<Rightarrow>
          Option.bind (main E cfg w1)
            (\<lambda>r. case r of
                    (Inl e, w2) \<Rightarrow> Some (Inl e, w2)
                  | (Inr u2, w2) \<Rightarrow> run_daily E cfg s w2))"

definition miner ::
  "'r env \<Rightarrow> config \<Rightarrow> 'r world \<Rightarrow> ((py_exception + unit) \<times> 'r world) option" where
  "miner E cfg w =
     (case run_at cfg of
        None \<Rightarrow> main E cfg w
      | Some s \<Rightarrow> if s = [] then main E cfg w else run_daily E cfg s w)"

subsection \<open>Period keys\<close>

text \<open>
  Two clock readings lie in the same calendar hour when they agree on year, month, day
  and hour. A reading has a four-digit year from 1000 to 9999.
\<close>

definition same_hour :: "datetime \<Rightarrow> datetime \<Rightarrow> bool" where
  "same_hour a b =
     (year (date a) = year (date b) \<and> month (date a) = month (date b)
      \<and> day (date a) = day (date b) \<and> hour (timeofday a) = hour (timeofday b))"

definition four_digit_year :: "datetime \<Rightarrow> bool" where
  "four_digit_year x = (1000 \<le> year (date x) \<and> year (date x) \<le> 9999)"

text \<open>The decimal digits of \<open>n\<close> in a field of width \<open>k\<close>.\<close>

primrec decw :: "nat \<Rightarrow> nat \<Rightarrow> string" where
  "decw 0 n = []"
| "decw (Suc k) n = decw k (n div 10) @ [digit_char (n mod 10)]"

fun is_Announce :: "event \<Rightarrow> bool" where
  "is_Announce (Announce uid payload) = True"
| "is_Announce _ = False"

fun is_Sleep :: "event \<Rightarrow> bool" where
  "is_Sleep (Sleep d) = True"
| "is_Sleep _ = False"

text \<open>The events that only the dataset refresh produces.\<close>

fun is_fetch :: "event \<Rightarrow> bool" where
  "is_fetch (Rmtree d) = True"
| "is_fetch (SnapshotDownload nspace d revision) = True"
| "is_fetch (Rename src dst) = True"
| "is_fetch _ = False"

fun is_FileWrite :: "event \<Rightarrow> bool" where
  "is_FileWrite (FileWrite p) = True"
| "is_FileWrite _ = False"

fun is_Upload :: "event \<Rightarrow> bool" where
  "is_Upload (Upload repo p) = True"
| "is_Upload _ = False"

text \<open>The events of \<open>n\<close> refused announcements, the first of them being call \<open>k\<close>.\<close>

primrec failed_attempts :: "'r env \<Rightarrow> string \<Rightarrow> string \<Rightarrow> nat \<Rightarrow> nat \<Rightarrow> event list" where
  "failed_attempts E uid payload k 0 = []"
| "failed_attempts E uid payload k (Suc n) =
     (case store_model_metadata E k uid payload of
        Some e \<Rightarrow> [Announce uid payload, LogError e, Sleep (120 * 1000000)]
      | None \<Rightarrow> [])
     @ failed_attempts E uid payload (Suc k) n"

subsection \<open>A concrete miner\<close>

text \<open>
  A world to run the definitions on: the clock reads 10:59:59 on 4 November 2026 at its
  first call and 11:00:00 afterwards, the ledger refuses the first two announcements.
\<close>

definition demo_clock :: "nat \<Rightarrow> datetime" where
  "demo_clock i =
     (if i = 0
      then \<lparr>date = \<lparr>year = 2026, month = 11, day = 4\<rparr>,
            timeofday = \<lparr>hour = 10, minute = 59, second = 59, microsecond = 0\<rparr>\<rparr>
      else \<lparr>date = \<lparr>year = 2026, month = 11, day = 4\<rparr>,
            timeofday = \<lparr>hour = 11, minute = 0, second = 0, microsecond = 0\<rparr>\<rparr>)"

definition demo_env :: "nat env" where
  "demo_env =
     \<lparr>clock = demo_clock,
      rng = (\<lambda>i. 7 * i + 3),
      preflight = None,
      competition_repo = ''flock/eval'',
      competition_ident = ''1'',
      eval_commit = ''main'',
      get_hg_revision = (\<lambda>nspace label. Inr ''rev1''),
      snapshot_download = (\<lambda>nspace revision. ([(''data.jsonl'', [1, 2, 3])], None)),
      upload_data = (\<lambda>repo path body. Inr ''c0ffee''),
      store_model_metadata = (\<lambda>k uid payload. if k < 2 then Some (OtherException ''too soon'') else None),
      to_compressed_str = (\<lambda>m. namespace m @ '':'' @ commit m @ '':'' @ competition_id m)\<rparr>"

definition demo_world :: "nat world" where
  "demo_world = \<lparr>files = Map.empty, now_calls = 0, announce_calls = 0, trace = []\<rparr>"

definition demo_config :: config where
  "demo_config =
     \<lparr>eval_data_dir = ''data/eval_data'', eval_file = ''data.jsonl'',
      submission_dir = ''data/submissions'', submission_size = Some 500, run_at = None,
      hf_repo_id = ''miner/repo'', netuid = ''96''\<rparr>"


definition demo_model_id :: model_id where
  "demo_model_id = \<lparr>namespace = ''miner/repo'', commit = ''c0ffee'', competition_id = ''1''\<rparr>"

text \<open>The same miner with a ledger call that is interrupted once, and one that accepts at once.\<close>

definition demo_env_interrupt :: "nat env" where
  "demo_env_interrupt =
     demo_env\<lparr>store_model_metadata := (\<lambda>k uid payload. if k = 0 then Some KeyboardInterrupt else None)\<rparr>"

definition demo_env_accept :: "nat env" where
  "demo_env_accept = demo_env\<lparr>store_model_metadata := (\<lambda>k uid payload. None)\<rparr>"

text \<open>The same miner without network, and a world that holds files of an earlier period.\<close>

definition demo_env_offline :: "nat env" where
  "demo_env_offline =
     demo_env\<lparr>snapshot_download := (\<lambda>nspace revision. ([], Some (OtherException ''network'')))\<rparr>"

definition demo_world_old :: "nat world" where
  "demo_world_old =
     \<lparr>files = [''data/eval_data/eval_data_2026110309.jsonl'' \<mapsto> [9, 9],
               ''data/eval_data/notes.txt'' \<mapsto> [0]],
      now_calls = 0, announce_calls = 0, trace = []\<rparr>"

text \<open>A world in which this period's eval file is there, with 10000 records.\<close>

definition ten_thousand_records :: "nat list" where
  "ten_thousand_records = [0..<10000]"

definition demo_world_10000 :: "nat world" where
  "demo_world_10000 =
     \<lparr>files = [''data/eval_data/eval_data_2026110410.jsonl'' \<mapsto> ten_thousand_records],
      now_calls = 0, announce_calls = 0, trace = []\<rparr>"

section \<open>Properties\<close>

subsection \<open>The calendar\<close>














lemma next_day_valid: "valid_date d \<Longrightarrow> valid_date (next_day d)"
  by (auto simp: valid_date_def next_day_def days_in_month_def)

subsection \<open>Times of day\<close>




subsection \<open>The schedule string\<close>

lemma length2: "length xs = 2 \<Longrightarrow> \<exists>a b. xs = [a, b]"
  by (cases xs; simp; cases "tl xs"; auto)

lemma length3: "length xs = 3 \<Longrightarrow> \<exists>a b c. xs = [a, b, c]"
  by (metis length_0_conv length_Suc_conv numeral_3_eq_3)


lemma dt_time_bad:
  "\<not> (0 \<le> h \<and> h \<le> 23 \<and> 0 \<le> m \<and> m \<le> 59 \<and> 0 \<le> s \<and> s \<le> 59) \<Longrightarrow> \<exists>e. dt_time h m s = Inl e"
  by (auto simp: dt_time_def)


lemma parse_malformed:
  assumes "\<not> well_formed_schedule s"
  shows "\<exists>e. parse_run_at s = Inl e"
proof -
  define parts where "parts = split_colon (py_strip s)"
  consider (two) "length parts = 2" | (three) "length parts = 3"
    | (other) "length parts \<noteq> 2 \<and> length parts \<noteq> 3" by blast
  then show ?thesis
  proof cases
    case two
    then obtain a b where p: "parts = [a, b]" using length2 by blast
    show ?thesis
    proof (cases "py_int a")
      case (Inl e)
      then show ?thesis using p by (simp add: parse_run_at_def parts_def [symmetric])
    next
      case h: (Inr h)
      show ?thesis
      proof (cases "py_int b")
        case (Inl e)
        then show ?thesis using p h by (simp add: parse_run_at_def parts_def [symmetric])
      next
        case m: (Inr m)
        from p h m have "schedule_ints s = Some [h, m]"
          by (simp add: schedule_ints_def parts_def [symmetric])
        with assms have "\<not> (0 \<le> h \<and> h \<le> 23 \<and> 0 \<le> m \<and> m \<le> 59 \<and> 0 \<le> (0::int) \<and> (0::int) \<le> 59)"
          by (simp add: well_formed_schedule_def)
        then obtain e where "dt_time h m 0 = Inl e" using dt_time_bad by blast
        then show ?thesis using p h m by (simp add: parse_run_at_def parts_def [symmetric])
      qed
    qed
  next
    case three
    then obtain a b c where p: "parts = [a, b, c]" using length3 by blast
    show ?thesis
    proof (cases "py_int a")
      case (Inl e)
      then show ?thesis using p by (simp add: parse_run_at_def parts_def [symmetric])
    next
      case h: (Inr h)
      show ?thesis
      proof (cases "py_int b")
        case (Inl e)
        then show ?thesis using p h by (simp add: parse_run_at_def parts_def [symmetric])
      next
        case m: (Inr m)
        show ?thesis
        proof (cases "py_int c")
          case (Inl e)
          then show ?thesis using p h m by (simp add: parse_run_at_def parts_def [symmetric])
        next
          case sec: (Inr sec)
          from p h m sec have "schedule_ints s = Some [h, m, sec]"
            by (simp add: schedule_ints_def parts_def [symmetric])
          with assms have "\<not> (0 \<le> h \<and> h \<le> 23 \<and> 0 \<le> m \<and> m \<le> 59 \<and> 0 \<le> sec \<and> sec \<le> 59)"
            by (simp add: well_formed_schedule_def)
          then obtain e where "dt_time h m sec = Inl e" using dt_time_bad by blast
          then show ?thesis using p h m sec by (simp add: parse_run_at_def parts_def [symmetric])
        qed
      qed
    qed
  next
    case other
    then show ?thesis by (simp add: parse_run_at_def parts_def [symmetric])
  qed
qed








text \<open>
  Claim C4. On a schedule string that is not well formed (not two or three fields
  between colons, a field that is no integer, a field out of range) \<^verbatim>\<open>wait_until\<close>
  raises and leaves the world as it was: no clock read and no sleep. The daily loop
  ends with the same exception in the same world.
\<close>

theorem wait_until_malformed:
  assumes "\<not> well_formed_schedule s"
  shows "\<exists>e. wait_until E s w = (Inl e, w) \<and> run_daily E cfg s w = Some (Inl e, w)"
proof -
  from assms obtain e where "parse_run_at s = Inl e" using parse_malformed by blast
  then have "wait_until E s w = (Inl e, w)" by (simp add: wait_until_def)
  moreover from this have "run_daily E cfg s w = Some (Inl e, w)"
    by (subst run_daily.simps) simp
  ultimately show ?thesis by blast
qed

theorem wait_until_malformed_witness:
  "\<not> well_formed_schedule ''25:00''
   \<and> (\<exists>e. wait_until demo_env ''25:00'' demo_world = (Inl e, demo_world)
          \<and> run_daily demo_env demo_config ''25:00'' demo_world = Some (Inl e, demo_world))"
proof -
  have a: "\<not> well_formed_schedule ''25:00''" by code_simp
  from wait_until_malformed [OF a] a show ?thesis by blast
qed

subsection \<open>The submission builder\<close>

lemma shuffle_loop_mset: "i < length xs \<Longrightarrow> mset (shuffle_loop rnd i xs) = mset xs"
proof (induction i arbitrary: xs)
  case 0
  then show ?case by simp
next
  case (Suc i)
  let ?j = "rnd (Suc i) mod Suc (Suc i)"
  have j: "?j < length xs" using Suc.prems by (meson Suc_leI le_trans mod_less_divisor not_less zero_less_Suc less_Suc_eq_le)
  have "mset (xs[Suc i := xs ! ?j, ?j := xs ! Suc i]) = mset xs"
    using j Suc.prems by (rule mset_swap)
  moreover have "i < length (xs[Suc i := xs ! ?j, ?j := xs ! Suc i])" using Suc.prems by simp
  ultimately show ?case using Suc.IH by (simp add: Let_def)
qed

lemma random_shuffle_mset: "mset (random_shuffle rnd xs) = mset xs"
proof (cases xs)
  case Nil
  then show ?thesis by (simp add: random_shuffle_def)
next
  case (Cons a as)
  then have "length xs - 1 < length xs" by simp
  then show ?thesis unfolding random_shuffle_def by (rule shuffle_loop_mset)
qed



lemma make_submission_result:
  assumes "files w (os_path_join eval_dir eval_name) = Some ds"
  shows "make_submission E eval_dir eval_name sub_dir sz w =
     (let out = (case sz of None \<Rightarrow> random_shuffle (rng E) ds
                          | Some k \<Rightarrow> slice_to (random_shuffle (rng E) ds) k);
          path = os_path_join sub_dir
                   (''submission_'' @ strftime_YmdH (clock E (now_calls w))
                      @ (case sz of None \<Rightarrow> [] | Some k \<Rightarrow> ''_'' @ str_int k) @ ''.jsonl'')
      in (Inr path,
          w\<lparr>files := (files w)(path \<mapsto> out), now_calls := Suc (now_calls w),
            trace := trace w @ [Makedirs sub_dir, FileWrite path]\<rparr>))"
  using assms
  by (cases sz) (simp_all add: make_submission_def load_jsonl_def makedirs_def emit_def datetime_now_def Let_def)




subsection \<open>Period keys\<close>

lemma digit_char_less: "a < 10 \<Longrightarrow> b < 10 \<Longrightarrow> (digit_char a < digit_char b) = (a < b)"
  by (simp add: digit_char_def less_char_def)

lemma digit_char_eq: "a < 10 \<Longrightarrow> b < 10 \<Longrightarrow> (digit_char a = digit_char b) = (a = b)"
  using digit_char_less [of a b] digit_char_less [of b a] by (metis less_irrefl nat_neq_iff)

lemma decw_length: "length (decw k n) = k"
  by (induction k arbitrary: n) simp_all

lemma append_less_same_length:
  fixes xs ys :: "'a::linorder list"
  shows "length xs = length ys \<Longrightarrow> (xs @ u < ys @ v) = (xs < ys \<or> xs = ys \<and> u < v)"
  by (induction xs ys rule: list_induct2) auto

lemma append_eq_same_length:
  "length xs = length ys \<Longrightarrow> (xs @ u = ys @ v) = (xs = ys \<and> u = v)"
  by simp

lemma div_mod_10_less:
  fixes a b :: nat
  shows "(a div 10 < b div 10 \<or> a div 10 = b div 10 \<and> a mod 10 < b mod 10) = (a < b)"
proof -
  have a: "a = 10 * (a div 10) + a mod 10" and b: "b = 10 * (b div 10) + b mod 10" by simp_all
  have ma: "a mod 10 < 10" and mb: "b mod 10 < 10" by simp_all
  define qa ra qb rb where d: "qa = a div 10" "ra = a mod 10" "qb = b div 10" "rb = b mod 10"
  have "(qa < qb \<or> qa = qb \<and> ra < rb) = (10 * qa + ra < 10 * qb + rb)"
    using ma mb unfolding d [symmetric] by linarith
  then show ?thesis unfolding d using a b by simp
qed

lemma decw_less: "a < 10 ^ k \<Longrightarrow> b < 10 ^ k \<Longrightarrow> (decw k a < decw k b) = (a < b)"
proof (induction k arbitrary: a b)
  case 0
  then show ?case by simp
next
  case (Suc k)
  have qa: "a div 10 < 10 ^ k" and qb: "b div 10 < 10 ^ k"
    using Suc.prems by (simp_all add: less_mult_imp_div_less mult.commute)
  have inj: "(decw k (a div 10) = decw k (b div 10)) = (a div 10 = b div 10)"
    using Suc.IH [OF qa qb] Suc.IH [OF qb qa] by (metis less_irrefl nat_neq_iff)
  have "(decw (Suc k) a < decw (Suc k) b)
      = (decw k (a div 10) < decw k (b div 10)
         \<or> decw k (a div 10) = decw k (b div 10) \<and> [digit_char (a mod 10)] < [digit_char (b mod 10)])"
    by (simp only: decw.simps append_less_same_length [OF trans [OF decw_length decw_length [symmetric]]])
  also have "\<dots> = (a div 10 < b div 10 \<or> a div 10 = b div 10 \<and> a mod 10 < b mod 10)"
    by (simp add: Suc.IH [OF qa qb] inj digit_char_less)
  also have "\<dots> = (a < b)" by (rule div_mod_10_less)
  finally show ?case .
qed

lemma decw_eq: "a < 10 ^ k \<Longrightarrow> b < 10 ^ k \<Longrightarrow> (decw k a = decw k b) = (a = b)"
  using decw_less [of a k b] decw_less [of b k a] by (metis less_irrefl nat_neq_iff)

lemma str_nat_four: "1000 \<le> n \<Longrightarrow> n \<le> 9999 \<Longrightarrow> str_nat n = decw 4 n"
proof -
  assume n: "1000 \<le> n" "n \<le> 9999"
  define a b c where d: "a = n div 10" "b = a div 10" "c = b div 10"
  have f: "\<not> n < 10" "\<not> a < 10" "\<not> b < 10" "c < 10"
    using n unfolding d by linarith+
  have 1: "str_nat n = str_nat a @ [digit_char (n mod 10)]"
    using f(1) by (simp add: str_nat.simps [of n] d(1))
  have 2: "str_nat a = str_nat b @ [digit_char (a mod 10)]"
    using f(2) by (simp add: str_nat.simps [of a] d(2))
  have 3: "str_nat b = str_nat c @ [digit_char (b mod 10)]"
    using f(3) by (simp add: str_nat.simps [of b] d(3))
  have 4: "str_nat c = [digit_char c]"
    using f(4) by (simp add: str_nat.simps [of c])
  have 5: "c mod 10 = c" using f(4) by simp
  have "decw (Suc (Suc (Suc (Suc 0)))) n = str_nat n"
    unfolding 1 2 3 4 decw.simps d [symmetric] 5 by simp
  moreover have four: "(4::nat) = Suc (Suc (Suc (Suc 0)))" by simp
  have "decw 4 n = decw (Suc (Suc (Suc (Suc 0)))) n" by (simp only: four)
  ultimately show ?thesis by (simp only:)
qed

lemma pad2_decw: "nat i < 100 \<Longrightarrow> pad2 i = decw 2 (nat i)"
proof -
  assume "nat i < 100"
  then have "nat i div 10 < 10" by simp
  then have m: "nat i div 10 mod 10 = nat i div 10" by simp
  have two: "(2::nat) = Suc (Suc 0)" by simp
  have "decw 2 (nat i) = decw (Suc (Suc 0)) (nat i)" by (simp only: two)
  then show ?thesis by (simp add: pad2_def m)
qed


lemma valid_fields_small:
  assumes "valid_datetime x" "four_digit_year x"
  shows "nat (year (date x)) < 10 ^ 4" "nat (month (date x)) < 10 ^ 2"
        "nat (day (date x)) < 10 ^ 2" "nat (hour (timeofday x)) < 10 ^ 2"
        "0 \<le> year (date x)" "0 \<le> month (date x)" "0 \<le> day (date x)" "0 \<le> hour (timeofday x)"
  using assms
  by (auto simp: valid_datetime_def valid_date_def valid_time_def four_digit_year_def days_in_month_def
           split: if_splits)

lemma strftime_decw:
  assumes "valid_datetime x" "four_digit_year x"
  shows "strftime_YmdH x = decw 4 (nat (year (date x))) @ decw 2 (nat (month (date x)))
           @ decw 2 (nat (day (date x))) @ decw 2 (nat (hour (timeofday x)))"
proof -
  note s = valid_fields_small [OF assms]
  have "1000 \<le> nat (year (date x))" "nat (year (date x)) \<le> 9999"
    using assms(2) unfolding four_digit_year_def by linarith+
  then have "str_nat (nat (year (date x))) = decw 4 (nat (year (date x)))" by (rule str_nat_four)
  moreover have "pad2 (month (date x)) = decw 2 (nat (month (date x)))" using s(2) by (intro pad2_decw) simp
  moreover have "pad2 (day (date x)) = decw 2 (nat (day (date x)))" using s(3) by (intro pad2_decw) simp
  moreover have "pad2 (hour (timeofday x)) = decw 2 (nat (hour (timeofday x)))" using s(4) by (intro pad2_decw) simp
  ultimately show ?thesis by (simp add: strftime_YmdH_def)
qed

lemma nat_cmp:
  "0 \<le> a \<Longrightarrow> 0 \<le> b \<Longrightarrow> (nat a < nat b) = (a < b)"
  "0 \<le> a \<Longrightarrow> 0 \<le> b \<Longrightarrow> (nat a = nat b) = (a = b)"
  by arith+

lemma key_less_iff:
  assumes va: "valid_datetime a" "four_digit_year a" and vb: "valid_datetime b" "four_digit_year b"
  shows "(strftime_YmdH a < strftime_YmdH b)
       = ([year (date a), month (date a), day (date a), hour (timeofday a)]
            < [year (date b), month (date b), day (date b), hour (timeofday b)])"
proof -
  note sa = valid_fields_small [OF va] and sb = valid_fields_small [OF vb]
  have l4: "\<And>m n. length (decw 4 m) = length (decw 4 n)" by (simp add: decw_length)
  have l2: "\<And>m n. length (decw 2 m) = length (decw 2 n)" by (simp add: decw_length)
  have y: "(nat (year (date a)) < nat (year (date b))) = (year (date a) < year (date b))"
          "(nat (year (date a)) = nat (year (date b))) = (year (date a) = year (date b))"
    using sa(5) sb(5) by (simp_all only: nat_cmp)
  have m: "(nat (month (date a)) < nat (month (date b))) = (month (date a) < month (date b))"
          "(nat (month (date a)) = nat (month (date b))) = (month (date a) = month (date b))"
    using sa(6) sb(6) by (simp_all only: nat_cmp)
  have d: "(nat (day (date a)) < nat (day (date b))) = (day (date a) < day (date b))"
          "(nat (day (date a)) = nat (day (date b))) = (day (date a) = day (date b))"
    using sa(7) sb(7) by (simp_all only: nat_cmp)
  have h: "(nat (hour (timeofday a)) < nat (hour (timeofday b))) = (hour (timeofday a) < hour (timeofday b))"
    using sa(8) sb(8) by (simp only: nat_cmp)
  show ?thesis
    unfolding strftime_decw [OF va] strftime_decw [OF vb]
      append_less_same_length [OF l4] append_less_same_length [OF l2]
      decw_less [OF sa(1) sb(1)] decw_eq [OF sa(1) sb(1)]
      decw_less [OF sa(2) sb(2)] decw_eq [OF sa(2) sb(2)]
      decw_less [OF sa(3) sb(3)] decw_eq [OF sa(3) sb(3)]
      decw_less [OF sa(4) sb(4)] y m d h
    by simp
qed

lemma append_le_prefix:
  fixes xs ys :: "'a::linorder list"
  assumes "length xs = length ys" "xs @ u \<le> ys @ v"
  shows "xs \<le> ys"
proof -
  from assms(2) have "xs @ u < ys @ v \<or> xs @ u = ys @ v" by (simp add: le_less)
  then have "xs < ys \<or> xs = ys"
    using append_less_same_length [OF assms(1), of u v] assms(1) by auto
  then show ?thesis by (simp add: le_less)
qed

text \<open>
  Claim C7. The period key is \<^verbatim>\<open>strftime("%Y%m%d%H")\<close> of a clock reading, a function of
  the reading alone. Two readings in the same calendar hour give the same key. For
  readings with a four-digit year, readings in different hours give different keys, and
  a later reading gives a key that is not smaller in the order of strings.
\<close>

theorem period_key_properties:
  "(same_hour a b \<longrightarrow> strftime_YmdH a = strftime_YmdH b)
   \<and> (valid_datetime a \<and> four_digit_year a \<and> valid_datetime b \<and> four_digit_year b \<longrightarrow>
        (\<not> same_hour a b \<longrightarrow> strftime_YmdH a \<noteq> strftime_YmdH b)
      \<and> (dt_le a b \<longrightarrow> strftime_YmdH a \<le> strftime_YmdH b))"
proof (intro conjI impI)
  assume "same_hour a b"
  then show "strftime_YmdH a = strftime_YmdH b" by (simp add: same_hour_def strftime_YmdH_def)
next
  let ?ka = "[year (date a), month (date a), day (date a), hour (timeofday a)]"
  let ?kb = "[year (date b), month (date b), day (date b), hour (timeofday b)]"
  assume v: "valid_datetime a \<and> four_digit_year a \<and> valid_datetime b \<and> four_digit_year b"
  then have ab: "(strftime_YmdH a < strftime_YmdH b) = (?ka < ?kb)"
    and ba: "(strftime_YmdH b < strftime_YmdH a) = (?kb < ?ka)"
    by (simp_all add: key_less_iff)
  have eq: "?ka = ?kb \<longleftrightarrow> same_hour a b" by (auto simp: same_hour_def)
  {
    assume n: "\<not> same_hour a b"
    show "strftime_YmdH a \<noteq> strftime_YmdH b"
    proof
      assume e: "strftime_YmdH a = strftime_YmdH b"
      then have "\<not> ?ka < ?kb" "\<not> ?kb < ?ka" using ab ba by simp_all
      then have "?ka = ?kb" by (meson not_less_iff_gr_or_eq)
      with eq n show False by simp
    qed
  }
  {
    assume le: "dt_le a b"
    have "?ka @ [minute (timeofday a), second (timeofday a), microsecond (timeofday a)]
          \<le> ?kb @ [minute (timeofday b), second (timeofday b), microsecond (timeofday b)]"
      using le by (simp only: dt_le_def dt_fields_def append.simps)
    then have "?ka \<le> ?kb" by (rule append_le_prefix [rotated]) simp
    then have "?ka < ?kb \<or> ?ka = ?kb" by (simp only: le_less)
    then show "strftime_YmdH a \<le> strftime_YmdH b"
    proof
      assume "?ka < ?kb"
      with ab show ?thesis by (simp add: le_less)
    next
      assume "?ka = ?kb"
      with eq have "same_hour a b" by simp
      then have "strftime_YmdH a = strftime_YmdH b" by (simp add: same_hour_def strftime_YmdH_def)
      then show ?thesis by simp
    qed
  }
qed

theorem period_key_properties_witness:
  "same_hour (demo_clock 1) (demo_clock 2)
   \<and> strftime_YmdH (demo_clock 1) = strftime_YmdH (demo_clock 2)
   \<and> valid_datetime (demo_clock 0) \<and> four_digit_year (demo_clock 0)
   \<and> valid_datetime (demo_clock 1) \<and> four_digit_year (demo_clock 1)
   \<and> \<not> same_hour (demo_clock 0) (demo_clock 1)
   \<and> strftime_YmdH (demo_clock 0) \<noteq> strftime_YmdH (demo_clock 1)
   \<and> dt_le (demo_clock 0) (demo_clock 1)
   \<and> strftime_YmdH (demo_clock 0) \<le> strftime_YmdH (demo_clock 1)"
proof -
  have a: "same_hour (demo_clock 1) (demo_clock 2)" by code_simp
  have b: "valid_datetime (demo_clock 0) \<and> four_digit_year (demo_clock 0)
           \<and> valid_datetime (demo_clock 1) \<and> four_digit_year (demo_clock 1)" by code_simp
  have c: "\<not> same_hour (demo_clock 0) (demo_clock 1)" by code_simp
  have d: "dt_le (demo_clock 0) (demo_clock 1)" by code_simp
  from period_key_properties [of "demo_clock 1" "demo_clock 2"] a
  have 1: "strftime_YmdH (demo_clock 1) = strftime_YmdH (demo_clock 2)" by blast
  from period_key_properties [of "demo_clock 0" "demo_clock 1"] b c d
  have 2: "strftime_YmdH (demo_clock 0) \<noteq> strftime_YmdH (demo_clock 1)"
    and 3: "strftime_YmdH (demo_clock 0) \<le> strftime_YmdH (demo_clock 1)" by blast+
  from a b c d 1 2 3 show ?thesis by blast
qed

subsection \<open>The announce loop\<close>

lemma commit_loop_accept:
  assumes "store_model_metadata E (announce_calls w) uid (to_compressed_str E mid) = None"
  shows "commit_loop E uid mid w =
           Some (Inr (), emit [Announce uid (to_compressed_str E mid)]
                           (w\<lparr>announce_calls := Suc (announce_calls w)\<rparr>))"
  using assms by (subst commit_loop.simps) (simp add: Let_def)

lemma commit_loop_refuse:
  assumes "store_model_metadata E (announce_calls w) uid (to_compressed_str E mid) = Some e"
    and "is_Exception e"
  shows "commit_loop E uid mid w =
           commit_loop E uid mid
             (emit [LogError e, Sleep (120 * 1000000)]
                (emit [Announce uid (to_compressed_str E mid)]
                   (w\<lparr>announce_calls := Suc (announce_calls w)\<rparr>)))"
  using assms by (subst commit_loop.simps) (simp add: Let_def)

lemma commit_loop_propagate:
  assumes "store_model_metadata E (announce_calls w) uid (to_compressed_str E mid) = Some e"
    and "\<not> is_Exception e"
  shows "commit_loop E uid mid w =
           Some (Inl e, emit [Announce uid (to_compressed_str E mid)]
                          (w\<lparr>announce_calls := Suc (announce_calls w)\<rparr>))"
  using assms by (subst commit_loop.simps) (simp add: Let_def)

lemma commit_loop_run:
  assumes "\<forall>i<N. \<exists>e. store_model_metadata E (announce_calls w + i) uid (to_compressed_str E mid) = Some e
                      \<and> is_Exception e"
    and "store_model_metadata E (announce_calls w + N) uid (to_compressed_str E mid) = None"
  shows "commit_loop E uid mid w =
           Some (Inr (), w\<lparr>announce_calls := announce_calls w + N + 1,
                           trace := trace w
                             @ failed_attempts E uid (to_compressed_str E mid) (announce_calls w) N
                             @ [Announce uid (to_compressed_str E mid)]\<rparr>)"
  using assms
proof (induction N arbitrary: w)
  case 0
  then show ?case using commit_loop_accept [of E w uid mid] by (simp add: emit_def)
next
  case (Suc N)
  let ?p = "to_compressed_str E mid"
  from Suc.prems(1) obtain e where e: "store_model_metadata E (announce_calls w) uid ?p = Some e"
    "is_Exception e" by force
  let ?w1 = "emit [LogError e, Sleep (120 * 1000000)]
                (emit [Announce uid ?p] (w\<lparr>announce_calls := Suc (announce_calls w)\<rparr>))"
  have k: "announce_calls ?w1 = Suc (announce_calls w)" by (simp add: emit_def)
  have f: "\<forall>i<N. \<exists>e. store_model_metadata E (announce_calls ?w1 + i) uid ?p = Some e \<and> is_Exception e"
  proof (intro allI impI)
    fix i assume "i < N"
    then have "Suc i < Suc N" by simp
    with Suc.prems(1) have "\<exists>e. store_model_metadata E (announce_calls w + Suc i) uid ?p = Some e \<and> is_Exception e"
      by blast
    then show "\<exists>e. store_model_metadata E (announce_calls ?w1 + i) uid ?p = Some e \<and> is_Exception e"
      by (simp add: emit_def)
  qed
  have s: "store_model_metadata E (announce_calls ?w1 + N) uid ?p = None"
    using Suc.prems(2) by (simp add: emit_def)
  have "commit_loop E uid mid w = commit_loop E uid mid ?w1" using e by (rule commit_loop_refuse)
  also have "\<dots> = Some (Inr (), ?w1\<lparr>announce_calls := announce_calls ?w1 + N + 1,
                           trace := trace ?w1 @ failed_attempts E uid ?p (announce_calls ?w1) N
                             @ [Announce uid ?p]\<rparr>)"
    using f s by (rule Suc.IH)
  also have "\<dots> = Some (Inr (), w\<lparr>announce_calls := announce_calls w + Suc N + 1,
                           trace := trace w @ failed_attempts E uid ?p (announce_calls w) (Suc N)
                             @ [Announce uid ?p]\<rparr>)"
    using e(1) by (simp add: emit_def)
  finally show ?case .
qed

lemma failed_attempts_filters:
  assumes "\<forall>i<N. \<exists>e. store_model_metadata E (k + i) uid p = Some e \<and> is_Exception e"
  shows "filter is_Announce (failed_attempts E uid p k N) = replicate N (Announce uid p)
       \<and> filter is_Sleep (failed_attempts E uid p k N) = replicate N (Sleep (120 * 1000000))
       \<and> length (failed_attempts E uid p k N) = 3 * N
       \<and> (\<forall>i<N. failed_attempts E uid p k N ! (3 * i) = Announce uid p
                \<and> (\<exists>e. is_Exception e \<and> failed_attempts E uid p k N ! (3 * i + 1) = LogError e)
                \<and> failed_attempts E uid p k N ! (3 * i + 2) = Sleep (120 * 1000000))"
  using assms
proof (induction N arbitrary: k)
  case 0
  then show ?case by simp
next
  case (Suc N)
  from Suc.prems obtain e where e: "store_model_metadata E k uid p = Some e" "is_Exception e" by force
  have "\<forall>i<N. \<exists>e. store_model_metadata E (Suc k + i) uid p = Some e \<and> is_Exception e"
  proof (intro allI impI)
    fix i assume "i < N"
    then have "Suc i < Suc N" by simp
    with Suc.prems have "\<exists>e. store_model_metadata E (k + Suc i) uid p = Some e \<and> is_Exception e" by blast
    then show "\<exists>e. store_model_metadata E (Suc k + i) uid p = Some e \<and> is_Exception e" by simp
  qed
  note ih = Suc.IH [OF this]
  let ?rest = "failed_attempts E uid p (Suc k) N"
  have u: "failed_attempts E uid p k (Suc N) = Announce uid p # LogError e # Sleep (120 * 1000000) # ?rest"
    using e(1) by simp
  have nth: "\<forall>i<Suc N. (Announce uid p # LogError e # Sleep (120 * 1000000) # ?rest) ! (3 * i) = Announce uid p
                \<and> (\<exists>e'. is_Exception e' \<and> (Announce uid p # LogError e # Sleep (120 * 1000000) # ?rest) ! (3 * i + 1) = LogError e')
                \<and> (Announce uid p # LogError e # Sleep (120 * 1000000) # ?rest) ! (3 * i + 2) = Sleep (120 * 1000000)"
  proof (intro allI impI)
    fix i assume i: "i < Suc N"
    show "(Announce uid p # LogError e # Sleep (120 * 1000000) # ?rest) ! (3 * i) = Announce uid p
                \<and> (\<exists>e'. is_Exception e' \<and> (Announce uid p # LogError e # Sleep (120 * 1000000) # ?rest) ! (3 * i + 1) = LogError e')
                \<and> (Announce uid p # LogError e # Sleep (120 * 1000000) # ?rest) ! (3 * i + 2) = Sleep (120 * 1000000)"
    proof (cases i)
      case 0
      then show ?thesis using e(2) by auto
    next
      case (Suc j)
      then have j: "j < N" using i by simp
      have a: "3 * i = Suc (Suc (Suc (3 * j)))" using Suc by simp
      from ih j have "?rest ! (3 * j) = Announce uid p
                \<and> (\<exists>e'. is_Exception e' \<and> ?rest ! (3 * j + 1) = LogError e')
                \<and> ?rest ! (3 * j + 2) = Sleep (120 * 1000000)" by blast
      then show ?thesis unfolding a by simp
    qed
  qed
  show ?case unfolding u using ih nth by simp
qed


text \<open>
  Claim C1, as amended. When the ledger call raises an exception that is an instance of
  \<^verbatim>\<open>Exception\<close> at each of the next \<open>N\<close> calls and accepts the call after them, the loop
  returns normally after exactly \<open>N + 1\<close> calls, all with the same payload. Each refused
  call is followed by the log line and one sleep of 120 seconds, and the accepted call
  is the last event: the loop ends at the first success. No exception reaches the
  caller and no file is touched. \<open>N\<close> is arbitrary: there is no bound on the attempts.
\<close>

theorem commit_loop_retries:
  assumes "\<forall>i<N. \<exists>e. store_model_metadata E (announce_calls w + i) uid (to_compressed_str E mid) = Some e
                      \<and> is_Exception e"
    and "store_model_metadata E (announce_calls w + N) uid (to_compressed_str E mid) = None"
  shows "\<exists>w' new.
           commit_loop E uid mid w = Some (Inr (), w')
         \<and> announce_calls w' = announce_calls w + N + 1
         \<and> files w' = files w \<and> now_calls w' = now_calls w
         \<and> trace w' = trace w @ new @ [Announce uid (to_compressed_str E mid)]
         \<and> filter is_Announce (new @ [Announce uid (to_compressed_str E mid)])
             = replicate (N + 1) (Announce uid (to_compressed_str E mid))
         \<and> filter is_Sleep (new @ [Announce uid (to_compressed_str E mid)])
             = replicate N (Sleep (120 * 1000000))
         \<and> length new = 3 * N
         \<and> (\<forall>i<N. new ! (3 * i) = Announce uid (to_compressed_str E mid)
                  \<and> (\<exists>e. is_Exception e \<and> new ! (3 * i + 1) = LogError e)
                  \<and> new ! (3 * i + 2) = Sleep (120 * 1000000))"
proof -
  let ?p = "to_compressed_str E mid"
  let ?new = "failed_attempts E uid ?p (announce_calls w) N"
  let ?w' = "w\<lparr>announce_calls := announce_calls w + N + 1,
                trace := trace w @ ?new @ [Announce uid ?p]\<rparr>"
  have r: "commit_loop E uid mid w = Some (Inr (), ?w')" using assms by (rule commit_loop_run)
  note f = failed_attempts_filters [OF assms(1)]
  have a: "filter is_Announce (?new @ [Announce uid ?p]) = replicate (N + 1) (Announce uid ?p)"
    using f by (simp add: replicate_append_same)
  have s: "filter is_Sleep (?new @ [Announce uid ?p]) = replicate N (Sleep (120 * 1000000))"
    using f by simp
  have w: "announce_calls ?w' = announce_calls w + N + 1" "files ?w' = files w"
    "now_calls ?w' = now_calls w" "trace ?w' = trace w @ ?new @ [Announce uid ?p]" by simp_all
  from r w a s f show ?thesis by blast
qed

theorem commit_loop_retries_witness:
  "store_model_metadata demo_env 0 ''96'' (to_compressed_str demo_env demo_model_id)
     = Some (OtherException ''too soon'')
   \<and> store_model_metadata demo_env 1 ''96'' (to_compressed_str demo_env demo_model_id)
     = Some (OtherException ''too soon'')
   \<and> store_model_metadata demo_env 2 ''96'' (to_compressed_str demo_env demo_model_id) = None
   \<and> (\<exists>w'. commit_loop demo_env ''96'' demo_model_id demo_world = Some (Inr (), w')
          \<and> announce_calls w' = 3)"
proof -
  let ?p = "to_compressed_str demo_env demo_model_id"
  have 0: "store_model_metadata demo_env 0 ''96'' ?p = Some (OtherException ''too soon'')"
    and 1: "store_model_metadata demo_env 1 ''96'' ?p = Some (OtherException ''too soon'')"
    and 2: "store_model_metadata demo_env 2 ''96'' ?p = None"
    by (simp_all add: demo_env_def)
  have k: "announce_calls demo_world = 0" by (simp add: demo_world_def)
  have f: "\<forall>i<2. \<exists>e. store_model_metadata demo_env (announce_calls demo_world + i) ''96'' ?p = Some e
             \<and> is_Exception e"
    by (simp add: k demo_env_def)
  have s: "store_model_metadata demo_env (announce_calls demo_world + 2) ''96'' ?p = None"
    by (simp add: k demo_env_def)
  from commit_loop_retries [OF f s] obtain w' where
    "commit_loop demo_env ''96'' demo_model_id demo_world = Some (Inr (), w')"
    "announce_calls w' = announce_calls demo_world + 2 + 1" by blast
  with 0 1 2 k show ?thesis by simp
qed

text \<open>
  Claim C1 as stated speaks of any exception kind. A ledger call interrupted at the
  first attempt (\<^verbatim>\<open>KeyboardInterrupt\<close>, which \<^verbatim>\<open>except Exception\<close> does not catch) and
  accepted at the second: the loop makes one call, and the exception reaches the caller.
\<close>

theorem commit_loop_interrupt_counterexample:
  "store_model_metadata demo_env_interrupt 0 ''96'' (to_compressed_str demo_env_interrupt demo_model_id)
     = Some KeyboardInterrupt
   \<and> store_model_metadata demo_env_interrupt 1 ''96'' (to_compressed_str demo_env_interrupt demo_model_id)
     = None
   \<and> commit_loop demo_env_interrupt ''96'' demo_model_id demo_world
     = Some (Inl KeyboardInterrupt,
             demo_world\<lparr>announce_calls := 1, trace := [Announce ''96'' ''miner/repo:c0ffee:1'']\<rparr>)"
proof -
  let ?p = "to_compressed_str demo_env_interrupt demo_model_id"
  have 0: "store_model_metadata demo_env_interrupt (announce_calls demo_world) ''96'' ?p = Some KeyboardInterrupt"
    by (simp add: demo_env_interrupt_def demo_world_def)
  have 1: "store_model_metadata demo_env_interrupt 1 ''96'' ?p = None"
    by (simp add: demo_env_interrupt_def)
  have p: "?p = ''miner/repo:c0ffee:1''"
    by (simp add: demo_env_interrupt_def demo_env_def demo_model_id_def)
  have "commit_loop demo_env_interrupt ''96'' demo_model_id demo_world
        = Some (Inl KeyboardInterrupt,
                emit [Announce ''96'' ?p] (demo_world\<lparr>announce_calls := Suc (announce_calls demo_world)\<rparr>))"
    using 0 by (rule commit_loop_propagate) simp
  then have "commit_loop demo_env_interrupt ''96'' demo_model_id demo_world
     = Some (Inl KeyboardInterrupt,
             demo_world\<lparr>announce_calls := 1, trace := [Announce ''96'' ''miner/repo:c0ffee:1'']\<rparr>)"
    by (simp add: p emit_def demo_world_def)
  with 0 1 show ?thesis by (simp add: demo_world_def)
qed

subsection \<open>The dataset refresh\<close>

lemma in_dir_join: "b = [] \<or> hd b \<noteq> CHR ''/'' \<Longrightarrow> b \<noteq> [] \<Longrightarrow> in_dir d (os_path_join d b)"
  by (auto simp: in_dir_def os_path_join_def)

lemma rmtree_files: "files (rmtree d w) p = (if in_dir d p then None else files w p)"
  by (simp add: rmtree_def emit_def)

lemma rmtree_trace: "trace (rmtree d w) = trace w @ [Rmtree d]"
  by (simp add: rmtree_def emit_def)

lemma rmtree_counters:
  "now_calls (rmtree d w) = now_calls w" "announce_calls (rmtree d w) = announce_calls w"
  by (simp_all add: rmtree_def emit_def)

lemma deliver_other:
  "p \<notin> (\<lambda>(n, c). os_path_join d n) ` set fs \<Longrightarrow> deliver d fs m p = m p"
  unfolding deliver_def
  by (induction fs arbitrary: m) (auto split: prod.splits)

lemma download_dataset_result:
  assumes "snapshot_download E nspace revision = (delivered, exc)"
  shows "download_dataset E nspace revision d force w =
     (let w1 = (if force then rmtree d w else w);
          w3 = w1\<lparr>files := deliver d delivered (files w1),
                  trace := trace w1 @ [Makedirs d, SnapshotDownload nspace d revision]\<rparr>
      in case exc of
           None \<Rightarrow> (Inr (), w3)
         | Some e \<Rightarrow> if is_Exception e then (Inr (), w3\<lparr>trace := trace w3 @ [LogError e]\<rparr>)
                     else (Inl e, w3))"
  using assms
  by (cases exc) (simp_all add: download_dataset_def makedirs_def emit_def Let_def)


lemma deliver_mem:
  "p \<in> (\<lambda>(n, c). os_path_join d n) ` set fs \<Longrightarrow> \<exists>c. deliver d fs m p = Some c"
proof (induction fs arbitrary: m rule: rev_induct)
  case Nil
  then show ?case by simp
next
  case (snoc x xs)
  obtain a b where x: "x = (a, b)" by (cases x)
  have u: "deliver d (xs @ [x]) m = (deliver d xs m)(os_path_join d a \<mapsto> b)"
    by (simp add: deliver_def x)
  show ?case
  proof (cases "p = os_path_join d a")
    case True
    then show ?thesis by (simp add: u)
  next
    case False
    with snoc.prems x have "p \<in> (\<lambda>(n, c). os_path_join d n) ` set xs" by auto
    then obtain c where "deliver d xs m p = Some c" using snoc.IH by blast
    with False show ?thesis by (simp add: u)
  qed
qed

lemma os_rename_cases:
  "os_rename src dst w =
     (case files w src of
        None \<Rightarrow> (Inl FileNotFoundError, w)
      | Some c \<Rightarrow> (Inr (), w\<lparr>files := (files w)(src := None, dst \<mapsto> c),
                              trace := trace w @ [Rename src dst]\<rparr>))"
  by (simp add: os_rename_def emit_def split: option.splits)

lemma load_dataset_frame:
  assumes rev: "get_hg_revision E (competition_repo E) (eval_commit E) = Inr revision"
    and snap: "snapshot_download E (competition_repo E) revision = (delivered, exc)"
  shows "\<exists>r w' rest.
           load_dataset E d name w = (r, w')
         \<and> trace w' = trace w @ [Rmtree d, Makedirs d, SnapshotDownload (competition_repo E) d revision] @ rest
         \<and> now_calls w' = now_calls w \<and> announce_calls w' = announce_calls w
         \<and> (\<forall>p. in_dir d p \<and> p \<notin> (\<lambda>(n, c). os_path_join d n) ` set delivered
                  \<and> p \<noteq> os_path_join d name \<longrightarrow> files w' p = None)"
proof -
  let ?w3 = "(rmtree d w)\<lparr>files := deliver d delivered (files (rmtree d w)),
                  trace := trace (rmtree d w) @ [Makedirs d, SnapshotDownload (competition_repo E) d revision]\<rparr>"
  have dl: "download_dataset E (competition_repo E) revision d True w =
      (case exc of
           None \<Rightarrow> (Inr (), ?w3)
         | Some e \<Rightarrow> if is_Exception e then (Inr (), ?w3\<lparr>trace := trace ?w3 @ [LogError e]\<rparr>)
                     else (Inl e, ?w3))"
    using download_dataset_result [OF snap, of d True w] by (simp add: Let_def)
  have gone: "\<And>p. in_dir d p \<Longrightarrow> p \<notin> (\<lambda>(n, c). os_path_join d n) ` set delivered \<Longrightarrow> files ?w3 p = None"
    by (simp add: deliver_other rmtree_files)
  have t3: "trace ?w3 = trace w @ [Rmtree d, Makedirs d, SnapshotDownload (competition_repo E) d revision]"
    by (simp add: rmtree_trace)
  have n3: "now_calls ?w3 = now_calls w" "announce_calls ?w3 = announce_calls w"
    by (simp_all add: rmtree_def emit_def)
  have ld: "load_dataset E d name w =
      (case download_dataset E (competition_repo E) revision d True w of
         (Inl e, w1) \<Rightarrow> (Inl e, w1)
       | (Inr u, w1) \<Rightarrow> os_rename (os_path_join d ''data.jsonl'') (os_path_join d name) w1)"
    using rev by (simp add: load_dataset_def Let_def)
  have step: "\<And>w1 extra. files w1 = files ?w3 \<Longrightarrow> trace w1 = trace ?w3 @ extra \<Longrightarrow>
      now_calls w1 = now_calls w \<Longrightarrow> announce_calls w1 = announce_calls w \<Longrightarrow>
      \<exists>r w' rest. os_rename (os_path_join d ''data.jsonl'') (os_path_join d name) w1 = (r, w')
         \<and> trace w' = trace w @ [Rmtree d, Makedirs d, SnapshotDownload (competition_repo E) d revision] @ rest
         \<and> now_calls w' = now_calls w \<and> announce_calls w' = announce_calls w
         \<and> (\<forall>p. in_dir d p \<and> p \<notin> (\<lambda>(n, c). os_path_join d n) ` set delivered
                  \<and> p \<noteq> os_path_join d name \<longrightarrow> files w' p = None)"
  proof -
    fix w1 :: "'a world" and extra
    assume a: "files w1 = files ?w3" "trace w1 = trace ?w3 @ extra"
      "now_calls w1 = now_calls w" "announce_calls w1 = announce_calls w"
    show "\<exists>r w' rest. os_rename (os_path_join d ''data.jsonl'') (os_path_join d name) w1 = (r, w')
         \<and> trace w' = trace w @ [Rmtree d, Makedirs d, SnapshotDownload (competition_repo E) d revision] @ rest
         \<and> now_calls w' = now_calls w \<and> announce_calls w' = announce_calls w
         \<and> (\<forall>p. in_dir d p \<and> p \<notin> (\<lambda>(n, c). os_path_join d n) ` set delivered
                  \<and> p \<noteq> os_path_join d name \<longrightarrow> files w' p = None)"
    proof (cases "files w1 (os_path_join d ''data.jsonl'')")
      case None
      then have "os_rename (os_path_join d ''data.jsonl'') (os_path_join d name) w1 = (Inl FileNotFoundError, w1)"
        by (simp add: os_rename_cases)
      moreover have "trace w1 = trace w @ [Rmtree d, Makedirs d, SnapshotDownload (competition_repo E) d revision] @ extra"
        using a(2) t3 by simp
      moreover have "\<forall>p. in_dir d p \<and> p \<notin> (\<lambda>(n, c). os_path_join d n) ` set delivered
                  \<and> p \<noteq> os_path_join d name \<longrightarrow> files w1 p = None"
        using gone a(1) by simp
      ultimately show ?thesis using a(3,4) by blast
    next
      case (Some c)
      let ?w' = "w1\<lparr>files := (files w1)(os_path_join d ''data.jsonl'' := None, os_path_join d name \<mapsto> c),
                    trace := trace w1 @ [Rename (os_path_join d ''data.jsonl'') (os_path_join d name)]\<rparr>"
      have "os_rename (os_path_join d ''data.jsonl'') (os_path_join d name) w1 = (Inr (), ?w')"
        using Some by (simp add: os_rename_cases)
      moreover have "trace ?w' = trace w @ [Rmtree d, Makedirs d, SnapshotDownload (competition_repo E) d revision]
           @ (extra @ [Rename (os_path_join d ''data.jsonl'') (os_path_join d name)])"
        using a(2) t3 by simp
      moreover have "\<forall>p. in_dir d p \<and> p \<notin> (\<lambda>(n, c). os_path_join d n) ` set delivered
                  \<and> p \<noteq> os_path_join d name \<longrightarrow> files ?w' p = None"
        using gone a(1) by simp
      moreover have "now_calls ?w' = now_calls w" "announce_calls ?w' = announce_calls w"
        using a(3,4) by simp_all
      ultimately show ?thesis by blast
    qed
  qed
  show ?thesis
  proof (cases exc)
    case None
    then have "load_dataset E d name w = os_rename (os_path_join d ''data.jsonl'') (os_path_join d name) ?w3"
      by (simp add: ld dl)
    moreover have "\<exists>r w' rest. os_rename (os_path_join d ''data.jsonl'') (os_path_join d name) ?w3 = (r, w')
         \<and> trace w' = trace w @ [Rmtree d, Makedirs d, SnapshotDownload (competition_repo E) d revision] @ rest
         \<and> now_calls w' = now_calls w \<and> announce_calls w' = announce_calls w
         \<and> (\<forall>p. in_dir d p \<and> p \<notin> (\<lambda>(n, c). os_path_join d n) ` set delivered
                  \<and> p \<noteq> os_path_join d name \<longrightarrow> files w' p = None)"
      by (rule step [where extra = "[]"]) (simp_all add: rmtree_counters)
    ultimately show ?thesis by simp
  next
    case (Some e)
    show ?thesis
    proof (cases "is_Exception e")
      case True
      let ?w4 = "?w3\<lparr>trace := trace ?w3 @ [LogError e]\<rparr>"
      from True Some have "load_dataset E d name w
          = os_rename (os_path_join d ''data.jsonl'') (os_path_join d name) ?w4"
        by (simp add: ld dl)
      moreover have "\<exists>r w' rest. os_rename (os_path_join d ''data.jsonl'') (os_path_join d name) ?w4 = (r, w')
         \<and> trace w' = trace w @ [Rmtree d, Makedirs d, SnapshotDownload (competition_repo E) d revision] @ rest
         \<and> now_calls w' = now_calls w \<and> announce_calls w' = announce_calls w
         \<and> (\<forall>p. in_dir d p \<and> p \<notin> (\<lambda>(n, c). os_path_join d n) ` set delivered
                  \<and> p \<noteq> os_path_join d name \<longrightarrow> files w' p = None)"
        by (rule step [where extra = "[LogError e]"]) (simp_all add: rmtree_counters)
      ultimately show ?thesis by simp
    next
      case False
      with Some have "load_dataset E d name w = (Inl e, ?w3)" by (simp add: ld dl)
      moreover have "trace ?w3 = trace w @ [Rmtree d, Makedirs d, SnapshotDownload (competition_repo E) d revision] @ []"
        using t3 by simp
      ultimately show ?thesis using gone n3 by blast
    qed
  qed
qed

lemma load_dataset_after_failure:
  assumes rev: "get_hg_revision E (competition_repo E) (eval_commit E) = Inr revision"
    and snap: "snapshot_download E (competition_repo E) revision = (delivered, Some e)"
    and exc: "is_Exception e"
  shows "load_dataset E d name w =
           os_rename (os_path_join d ''data.jsonl'') (os_path_join d name)
             ((rmtree d w)\<lparr>files := deliver d delivered (files (rmtree d w)),
                 trace := trace (rmtree d w)
                   @ [Makedirs d, SnapshotDownload (competition_repo E) d revision, LogError e]\<rparr>)"
  using rev exc download_dataset_result [OF snap, of d True w]
  by (simp add: load_dataset_def Let_def)

text \<open>
  Claim C9. When the snapshot download raises an error \<open>e\<close> (an instance of
  \<^verbatim>\<open>Exception\<close>), \<^verbatim>\<open>download_dataset\<close> logs it and returns normally, whatever had been
  delivered before the error. In \<^verbatim>\<open>load_dataset\<close> the failure comes up only at the
  rename that follows: a \<^verbatim>\<open>FileNotFoundError\<close> when \<^verbatim>\<open>data.jsonl\<close> was not delivered,
  and no failure at all when it was.
\<close>

theorem download_dataset_absorbs:
  assumes snap: "snapshot_download E nspace revision = (delivered, Some e)"
    and exc: "is_Exception e"
  shows "(\<exists>w'. download_dataset E nspace revision d force w = (Inr (), w')
            \<and> trace w' = trace w @ (if force then [Rmtree d] else [])
                  @ [Makedirs d, SnapshotDownload nspace d revision, LogError e])
       \<and> (nspace = competition_repo E
            \<and> get_hg_revision E (competition_repo E) (eval_commit E) = Inr revision \<longrightarrow>
          (\<exists>w'. load_dataset E d name w =
                   (if os_path_join d ''data.jsonl'' \<in> (\<lambda>(n, c). os_path_join d n) ` set delivered
                    then Inr () else Inl FileNotFoundError, w')
               \<and> LogError e \<in> set (trace w')))"
proof (intro conjI impI)
  show "\<exists>w'. download_dataset E nspace revision d force w = (Inr (), w')
            \<and> trace w' = trace w @ (if force then [Rmtree d] else [])
                  @ [Makedirs d, SnapshotDownload nspace d revision, LogError e]"
    using exc download_dataset_result [OF snap, of d force w]
    by (simp add: Let_def rmtree_trace)
next
  assume a: "nspace = competition_repo E
            \<and> get_hg_revision E (competition_repo E) (eval_commit E) = Inr revision"
  let ?src = "os_path_join d ''data.jsonl''"
  let ?w4 = "(rmtree d w)\<lparr>files := deliver d delivered (files (rmtree d w)),
                 trace := trace (rmtree d w)
                   @ [Makedirs d, SnapshotDownload (competition_repo E) d revision, LogError e]\<rparr>"
  have ld: "load_dataset E d name w = os_rename ?src (os_path_join d name) ?w4"
    using a snap exc by (intro load_dataset_after_failure) simp_all
  have ind: "in_dir d ?src" by (rule in_dir_join) simp_all
  show "\<exists>w'. load_dataset E d name w =
                   (if ?src \<in> (\<lambda>(n, c). os_path_join d n) ` set delivered
                    then Inr () else Inl FileNotFoundError, w')
               \<and> LogError e \<in> set (trace w')"
  proof (cases "?src \<in> (\<lambda>(n, c). os_path_join d n) ` set delivered")
    case True
    then obtain c where "deliver d delivered (files (rmtree d w)) ?src = Some c"
      using deliver_mem by blast
    then have "files ?w4 ?src = Some c" by simp
    then have "os_rename ?src (os_path_join d name) ?w4
        = (Inr (), ?w4\<lparr>files := (files ?w4)(?src := None, os_path_join d name \<mapsto> c),
                        trace := trace ?w4 @ [Rename ?src (os_path_join d name)]\<rparr>)"
      by (simp only: os_rename_cases option.case)
    with True ld show ?thesis by simp
  next
    case False
    then have "deliver d delivered (files (rmtree d w)) ?src = files (rmtree d w) ?src"
      by (rule deliver_other)
    also have "\<dots> = None" using ind by (simp add: rmtree_files)
    finally have "files ?w4 ?src = None" by simp
    then have "os_rename ?src (os_path_join d name) ?w4 = (Inl FileNotFoundError, ?w4)"
      by (simp only: os_rename_cases option.case)
    with False ld show ?thesis by simp
  qed
qed

theorem download_dataset_absorbs_witness:
  "snapshot_download demo_env_offline ''flock/eval'' ''rev1'' = ([], Some (OtherException ''network''))
   \<and> is_Exception (OtherException ''network'')
   \<and> (\<exists>w'. download_dataset demo_env_offline ''flock/eval'' ''rev1'' ''data/eval_data'' True demo_world
              = (Inr (), w'))
   \<and> (\<exists>w'. load_dataset demo_env_offline ''data/eval_data'' ''eval_data_2026110410.jsonl'' demo_world
              = (Inl FileNotFoundError, w'))"
proof -
  have s: "snapshot_download demo_env_offline ''flock/eval'' ''rev1'' = ([], Some (OtherException ''network''))"
    by (simp add: demo_env_offline_def)
  have x: "is_Exception (OtherException ''network'')" by simp
  have r: "''flock/eval'' = competition_repo demo_env_offline
        \<and> get_hg_revision demo_env_offline (competition_repo demo_env_offline) (eval_commit demo_env_offline)
            = Inr ''rev1''"
    by (simp add: demo_env_offline_def demo_env_def)
  note t = download_dataset_absorbs [OF s x, of "''data/eval_data''" _ demo_world]
  from t [of True] have 1: "\<exists>w'. download_dataset demo_env_offline ''flock/eval'' ''rev1'' ''data/eval_data'' True demo_world
              = (Inr (), w')" by blast
  from t [of True "''eval_data_2026110410.jsonl''"] r
  have 2: "\<exists>w'. load_dataset demo_env_offline ''data/eval_data'' ''eval_data_2026110410.jsonl'' demo_world
              = (Inl FileNotFoundError, w')" by auto
  from s x 1 2 show ?thesis by blast
qed

text \<open>
  Claim C10. When this period's eval file is missing and the revision resolves, the
  refresh runs with \<open>force = True\<close>: it is the unforced download run on the world in
  which \<^verbatim>\<open>rmtree\<close> has removed every file below the eval-data directory. The directory
  is deleted first, then created again, then the snapshot is downloaded; afterwards a file
  below the directory exists only if the snapshot delivered it or it is the renamed
  eval file. Eval files of earlier periods and any other files kept there are gone.
\<close>

theorem refresh_is_forced:
  assumes missing: "files w (os_path_join (eval_data_dir cfg)
                      (''eval_data_'' @ strftime_YmdH (clock E (now_calls w)) @ ''.jsonl'')) = None"
    and rev: "get_hg_revision E (competition_repo E) (eval_commit E) = Inr revision"
    and snap: "snapshot_download E (competition_repo E) revision = (delivered, exc)"
  shows "download_dataset E (competition_repo E) revision (eval_data_dir cfg) True w
           = download_dataset E (competition_repo E) revision (eval_data_dir cfg) False
               (rmtree (eval_data_dir cfg) w)
       \<and> (\<forall>p. in_dir (eval_data_dir cfg) p \<longrightarrow> files (rmtree (eval_data_dir cfg) w) p = None)
       \<and> (\<exists>r w' rest.
             refresh_gate E cfg w = (r, w')
           \<and> trace w' = trace w @ [Rmtree (eval_data_dir cfg), Makedirs (eval_data_dir cfg),
                                    SnapshotDownload (competition_repo E) (eval_data_dir cfg) revision] @ rest
           \<and> (\<forall>p. in_dir (eval_data_dir cfg) p
                    \<and> p \<notin> (\<lambda>(n, c). os_path_join (eval_data_dir cfg) n) ` set delivered
                    \<and> p \<noteq> os_path_join (eval_data_dir cfg)
                            (''eval_data_'' @ strftime_YmdH (clock E (now_calls w)) @ ''.jsonl'')
                    \<longrightarrow> files w' p = None))"
proof (intro conjI)
  let ?d = "eval_data_dir cfg"
  let ?name = "''eval_data_'' @ strftime_YmdH (clock E (now_calls w)) @ ''.jsonl''"
  let ?w1 = "w\<lparr>now_calls := Suc (now_calls w)\<rparr>"
  show "download_dataset E (competition_repo E) revision ?d True w
           = download_dataset E (competition_repo E) revision ?d False (rmtree ?d w)"
    by (simp add: download_dataset_def)
  show "\<forall>p. in_dir ?d p \<longrightarrow> files (rmtree ?d w) p = None"
    by (simp add: rmtree_files)
  from load_dataset_frame [OF rev snap, of ?d ?name ?w1]
  obtain r w' rest where l: "load_dataset E ?d ?name ?w1 = (r, w')"
    "trace w' = trace ?w1 @ [Rmtree ?d, Makedirs ?d, SnapshotDownload (competition_repo E) ?d revision] @ rest"
    "\<forall>p. in_dir ?d p \<and> p \<notin> (\<lambda>(n, c). os_path_join ?d n) ` set delivered
                  \<and> p \<noteq> os_path_join ?d ?name \<longrightarrow> files w' p = None"
    by blast
  have "refresh_gate E cfg w = (case r of Inl e \<Rightarrow> Inl e | Inr u \<Rightarrow> Inr ?name, w')"
    using missing l(1) by (cases r) (simp_all add: refresh_gate_def datetime_now_def Let_def)
  moreover have "trace w' = trace w @ [Rmtree ?d, Makedirs ?d, SnapshotDownload (competition_repo E) ?d revision] @ rest"
    using l(2) by simp
  ultimately show "\<exists>r w' rest.
             refresh_gate E cfg w = (r, w')
           \<and> trace w' = trace w @ [Rmtree ?d, Makedirs ?d,
                                    SnapshotDownload (competition_repo E) ?d revision] @ rest
           \<and> (\<forall>p. in_dir ?d p
                    \<and> p \<notin> (\<lambda>(n, c). os_path_join ?d n) ` set delivered
                    \<and> p \<noteq> os_path_join ?d ?name
                    \<longrightarrow> files w' p = None)"
    using l(3) by blast
qed

theorem refresh_is_forced_witness:
  "files demo_world_old (os_path_join (eval_data_dir demo_config)
        (''eval_data_'' @ strftime_YmdH (clock demo_env (now_calls demo_world_old)) @ ''.jsonl'')) = None
   \<and> get_hg_revision demo_env (competition_repo demo_env) (eval_commit demo_env) = Inr ''rev1''
   \<and> snapshot_download demo_env (competition_repo demo_env) ''rev1'' = ([(''data.jsonl'', [1, 2, 3])], None)
   \<and> files demo_world_old ''data/eval_data/eval_data_2026110309.jsonl'' = Some [9, 9]
   \<and> (\<exists>r w'. refresh_gate demo_env demo_config demo_world_old = (r, w')
          \<and> files w' ''data/eval_data/eval_data_2026110309.jsonl'' = None
          \<and> files w' ''data/eval_data/notes.txt'' = None)"
proof -
  have m: "files demo_world_old (os_path_join (eval_data_dir demo_config)
        (''eval_data_'' @ strftime_YmdH (clock demo_env (now_calls demo_world_old)) @ ''.jsonl'')) = None"
    by code_simp
  have r: "get_hg_revision demo_env (competition_repo demo_env) (eval_commit demo_env) = Inr ''rev1''"
    by (simp add: demo_env_def)
  have s: "snapshot_download demo_env (competition_repo demo_env) ''rev1'' = ([(''data.jsonl'', [1, 2, 3])], None)"
    by (simp add: demo_env_def)
  have o: "files demo_world_old ''data/eval_data/eval_data_2026110309.jsonl'' = Some [9, 9]"
    by (simp add: demo_world_old_def)
  have p1: "in_dir (eval_data_dir demo_config) ''data/eval_data/eval_data_2026110309.jsonl''
        \<and> ''data/eval_data/eval_data_2026110309.jsonl''
            \<notin> (\<lambda>(n, c). os_path_join (eval_data_dir demo_config) n) ` set [(''data.jsonl'', [1::nat, 2, 3])]
        \<and> ''data/eval_data/eval_data_2026110309.jsonl'' \<noteq> os_path_join (eval_data_dir demo_config)
              (''eval_data_'' @ strftime_YmdH (clock demo_env (now_calls demo_world_old)) @ ''.jsonl'')"
    by code_simp
  have p2: "in_dir (eval_data_dir demo_config) ''data/eval_data/notes.txt''
        \<and> ''data/eval_data/notes.txt''
            \<notin> (\<lambda>(n, c). os_path_join (eval_data_dir demo_config) n) ` set [(''data.jsonl'', [1::nat, 2, 3])]
        \<and> ''data/eval_data/notes.txt'' \<noteq> os_path_join (eval_data_dir demo_config)
              (''eval_data_'' @ strftime_YmdH (clock demo_env (now_calls demo_world_old)) @ ''.jsonl'')"
    by code_simp
  from refresh_is_forced [OF m r s] p1 p2
  have "\<exists>r w'. refresh_gate demo_env demo_config demo_world_old = (r, w')
          \<and> files w' ''data/eval_data/eval_data_2026110309.jsonl'' = None
          \<and> files w' ''data/eval_data/notes.txt'' = None"
    by blast
  with m r s o show ?thesis by blast
qed

subsection \<open>One run of main\<close>

lemma is_digit_digit_char: "d < 10 \<Longrightarrow> is_digit (digit_char d)"
  by (simp add: is_digit_def digit_char_def)

lemma str_nat_digits: "\<forall>c\<in>set (str_nat n). is_digit c"
proof (induction n rule: str_nat.induct)
  case (1 n)
  show ?case
  proof (cases "n < 10")
    case True
    then show ?thesis by (simp add: str_nat.simps [of n] is_digit_digit_char)
  next
    case False
    then have "\<forall>c\<in>set (str_nat (n div 10)). is_digit c" using "1.IH" by simp
    with False show ?thesis by (simp add: str_nat.simps [of n] is_digit_digit_char)
  qed
qed

lemma pad2_digits: "0 \<le> i \<Longrightarrow> i \<le> 99 \<Longrightarrow> \<forall>c\<in>set (pad2 i). is_digit c"
proof -
  assume "0 \<le> i" "i \<le> 99"
  then have "nat i div 10 < 10" by linarith
  then show ?thesis by (simp add: pad2_def is_digit_digit_char)
qed

lemma strftime_digits:
  assumes "valid_datetime x"
  shows "\<forall>c\<in>set (strftime_YmdH x). is_digit c"
proof -
  have b: "0 \<le> month (date x)" "month (date x) \<le> 99" "0 \<le> day (date x)" "day (date x) \<le> 99"
    "0 \<le> hour (timeofday x)" "hour (timeofday x) \<le> 99"
    using assms
    by (auto simp: valid_datetime_def valid_date_def valid_time_def days_in_month_def split: if_splits)
  show ?thesis
    using str_nat_digits [of "nat (year (date x))"] pad2_digits [OF b(1,2)] pad2_digits [OF b(3,4)]
      pad2_digits [OF b(5,6)]
    by (auto simp: strftime_YmdH_def)
qed

lemma digit_suffix:
  assumes "\<forall>c\<in>set k. is_digit c" "\<not> is_digit u"
  shows "takeWhile is_digit (rev (x @ u # k)) = rev k"
proof -
  have "takeWhile is_digit (rev k @ u # rev x) = rev k @ takeWhile is_digit (u # rev x)"
    using assms(1) by (intro takeWhile_append2) simp
  then show ?thesis using assms(2) by simp
qed

lemma eval_submission_paths_differ:
  assumes k1: "\<forall>c\<in>set k1. is_digit c" and k2: "\<forall>c\<in>set k2. is_digit c"
  shows "os_path_join a (''eval_data_'' @ k1 @ ''.jsonl'') \<noteq> os_path_join b (''submission_'' @ k2 @ ''.jsonl'')"
proof
  assume e: "os_path_join a (''eval_data_'' @ k1 @ ''.jsonl'') = os_path_join b (''submission_'' @ k2 @ ''.jsonl'')"
  have u: "\<not> is_digit CHR ''_''" by (simp add: is_digit_def)
  from e have "(dirprefix a @ ''eval_data'') @ CHR ''_'' # k1 = (dirprefix b @ ''submission'') @ CHR ''_'' # k2"
    by (simp add: os_path_join_def)
  then have r: "rev ((dirprefix a @ ''eval_data'') @ CHR ''_'' # k1) = rev ((dirprefix b @ ''submission'') @ CHR ''_'' # k2)"
    by (simp only:)
  then have "takeWhile is_digit (rev ((dirprefix a @ ''eval_data'') @ CHR ''_'' # k1))
           = takeWhile is_digit (rev ((dirprefix b @ ''submission'') @ CHR ''_'' # k2))"
    by (simp only:)
  then have "rev k1 = rev k2"
    by (simp only: digit_suffix [OF k1 u] digit_suffix [OF k2 u])
  then have "k1 = k2" by simp
  with r show False by simp
qed

lemma refresh_gate_present:
  assumes "files w (os_path_join (eval_data_dir cfg)
                      (''eval_data_'' @ strftime_YmdH (clock E (now_calls w)) @ ''.jsonl'')) = Some ds"
  shows "refresh_gate E cfg w =
           (Inr (''eval_data_'' @ strftime_YmdH (clock E (now_calls w)) @ ''.jsonl''),
            w\<lparr>now_calls := Suc (now_calls w)\<rparr>)"
  using assms by (simp add: refresh_gate_def datetime_now_def Let_def)

lemma main_prepare_present:
  assumes pre: "preflight E = None"
    and ex: "files w (os_path_join (eval_data_dir cfg)
                      (''eval_data_'' @ strftime_YmdH (clock E (now_calls w)) @ ''.jsonl'')) = Some ds"
  shows "main_prepare E cfg w =
     (let out = random_shuffle (rng E) ds;
          path = os_path_join (submission_dir cfg)
                   (''submission_'' @ strftime_YmdH (clock E (Suc (now_calls w))) @ ''.jsonl'');
          w3 = w\<lparr>files := (files w)(path \<mapsto> out), now_calls := Suc (Suc (now_calls w)),
                 trace := trace w @ [Makedirs (submission_dir cfg), FileWrite path,
                                     Upload (hf_repo_id cfg) path]\<rparr>
      in case upload_data E (hf_repo_id cfg) path out of
           Inl e \<Rightarrow> (Inl e, w3)
         | Inr commit_id \<Rightarrow>
             (Inr \<lparr>namespace = hf_repo_id cfg, commit = commit_id,
                   competition_id = competition_ident E\<rparr>, w3))"
proof -
  let ?name = "''eval_data_'' @ strftime_YmdH (clock E (now_calls w)) @ ''.jsonl''"
  let ?w1 = "w\<lparr>now_calls := Suc (now_calls w)\<rparr>"
  have g: "refresh_gate E cfg w = (Inr ?name, ?w1)" using ex by (rule refresh_gate_present)
  have f: "files ?w1 (os_path_join (eval_data_dir cfg) ?name) = Some ds" using ex by simp
  note m = make_submission_result [OF f, of E "submission_dir cfg" None]
  define out where "out = random_shuffle (rng E) ds"
  define path where "path = os_path_join (submission_dir cfg)
                   (''submission_'' @ strftime_YmdH (clock E (Suc (now_calls w))) @ ''.jsonl'')"
  define w2 where "w2 = w\<lparr>files := (files w)(path \<mapsto> out), now_calls := Suc (Suc (now_calls w)),
                 trace := trace w @ [Makedirs (submission_dir cfg), FileWrite path]\<rparr>"
  define w3 where "w3 = w\<lparr>files := (files w)(path \<mapsto> out), now_calls := Suc (Suc (now_calls w)),
                 trace := trace w @ [Makedirs (submission_dir cfg), FileWrite path,
                                     Upload (hf_repo_id cfg) path]\<rparr>"
  have ms: "make_submission E (eval_data_dir cfg) ?name (submission_dir cfg) None ?w1 = (Inr path, w2)"
    unfolding m by (simp add: Let_def out_def path_def w2_def)
  have b: "(case files w2 path of None \<Rightarrow> [] | Some c \<Rightarrow> c) = out" by (simp add: w2_def)
  have e3: "emit [Upload (hf_repo_id cfg) path] w2 = w3" by (simp add: emit_def w2_def w3_def)
  have "main_prepare E cfg w =
      (case upload_data E (hf_repo_id cfg) path out of
           Inl e \<Rightarrow> (Inl e, w3)
         | Inr commit_id \<Rightarrow>
             (Inr \<lparr>namespace = hf_repo_id cfg, commit = commit_id,
                   competition_id = competition_ident E\<rparr>, w3))"
    by (simp only: main_prepare_def pre g ms option.case prod.case sum.case Let_def b e3)
  then show ?thesis by (simp only: Let_def out_def path_def w3_def)
qed

lemma commit_loop_events:
  assumes "commit_loop E uid mid w = Some y"
  shows "files (snd y) = files w \<and> now_calls (snd y) = now_calls w
     \<and> (\<exists>new. trace (snd y) = trace w @ new
            \<and> (\<forall>ev\<in>set new. \<not> is_fetch ev \<and> \<not> is_FileWrite ev \<and> \<not> is_Upload ev))"
  using assms
proof (induction rule: commit_loop.raw_induct)
  case (1 loop E uid mid w y)
  let ?p = "to_compressed_str E mid"
  let ?w1 = "emit [Announce uid ?p] (w\<lparr>announce_calls := Suc (announce_calls w)\<rparr>)"
  show ?case
  proof (cases "store_model_metadata E (announce_calls w) uid ?p")
    case None
    with "1.hyps" have "y = (Inr (), ?w1)" by (simp add: Let_def)
    then show ?thesis by (simp add: emit_def)
  next
    case (Some e)
    show ?thesis
    proof (cases "is_Exception e")
      case False
      with Some "1.hyps" have "y = (Inl e, ?w1)" by (simp add: Let_def)
      then show ?thesis by (simp add: emit_def)
    next
      case True
      let ?w2 = "emit [LogError e, Sleep (120 * 1000000)] ?w1"
      from True Some "1.hyps" have "loop E uid mid ?w2 = Some y" by (simp add: Let_def)
      moreover have "commit_loop E uid mid ?w2 = Some y"
        using commit_loop_refuse [OF Some True] "1.prems" by simp
      ultimately have ih: "files (snd y) = files ?w2 \<and> now_calls (snd y) = now_calls ?w2
           \<and> (\<exists>new. trace (snd y) = trace ?w2 @ new
                \<and> (\<forall>ev\<in>set new. \<not> is_fetch ev \<and> \<not> is_FileWrite ev \<and> \<not> is_Upload ev))"
        by (rule "1.IH")
      then obtain new where
        n: "files (snd y) = files ?w2" "now_calls (snd y) = now_calls ?w2"
           "trace (snd y) = trace ?w2 @ new"
           "\<forall>ev\<in>set new. \<not> is_fetch ev \<and> \<not> is_FileWrite ev \<and> \<not> is_Upload ev"
        by (elim conjE exE)
      have "trace (snd y) = trace w @ ([Announce uid ?p, LogError e, Sleep (120 * 1000000)] @ new)"
        using n(3) by (simp add: emit_def)
      moreover have "\<forall>ev\<in>set ([Announce uid ?p, LogError e, Sleep (120 * 1000000)] @ new).
          \<not> is_fetch ev \<and> \<not> is_FileWrite ev \<and> \<not> is_Upload ev"
        using n(4) by simp
      moreover have "files (snd y) = files w" "now_calls (snd y) = now_calls w"
        using n(1,2) by (simp_all add: emit_def)
      ultimately show ?thesis by blast
    qed
  qed
qed (rule assms)

lemma load_dataset_no_write:
  assumes "load_dataset E d name w = (r, w')"
  shows "now_calls w' = now_calls w
       \<and> (\<exists>new. trace w' = trace w @ new \<and> (\<forall>ev\<in>set new. \<not> is_FileWrite ev))"
proof (cases "get_hg_revision E (competition_repo E) (eval_commit E)")
  case (Inl e)
  with assms have "w' = w" by (simp add: load_dataset_def Let_def)
  then show ?thesis by simp
next
  case (Inr revision)
  obtain delivered exc where snap: "snapshot_download E (competition_repo E) revision = (delivered, exc)"
    by (cases "snapshot_download E (competition_repo E) revision")
  let ?w3 = "(rmtree d w)\<lparr>files := deliver d delivered (files (rmtree d w)),
                  trace := trace (rmtree d w) @ [Makedirs d, SnapshotDownload (competition_repo E) d revision]\<rparr>"
  have dl: "download_dataset E (competition_repo E) revision d True w =
      (case exc of
           None \<Rightarrow> (Inr (), ?w3)
         | Some e \<Rightarrow> if is_Exception e then (Inr (), ?w3\<lparr>trace := trace ?w3 @ [LogError e]\<rparr>)
                     else (Inl e, ?w3))"
    using download_dataset_result [OF snap, of d True w] by (simp add: Let_def)
  have ld: "load_dataset E d name w =
      (case download_dataset E (competition_repo E) revision d True w of
         (Inl e, w1) \<Rightarrow> (Inl e, w1)
       | (Inr u, w1) \<Rightarrow> os_rename (os_path_join d ''data.jsonl'') (os_path_join d name) w1)"
    using Inr by (simp add: load_dataset_def Let_def)
  have ren: "\<And>w1 r w'. os_rename (os_path_join d ''data.jsonl'') (os_path_join d name) w1 = (r, w') \<Longrightarrow>
      now_calls w' = now_calls w1 \<and> (\<exists>new. trace w' = trace w1 @ new \<and> (\<forall>ev\<in>set new. \<not> is_FileWrite ev))"
    by (auto simp: os_rename_cases split: option.splits)
  have t3: "trace ?w3 = trace w @ [Rmtree d, Makedirs d, SnapshotDownload (competition_repo E) d revision]"
    "now_calls ?w3 = now_calls w"
    by (simp_all add: rmtree_trace rmtree_counters)
  show ?thesis
  proof (cases exc)
    case None
    with assms ld dl have "os_rename (os_path_join d ''data.jsonl'') (os_path_join d name) ?w3 = (r, w')"
      by simp
    from ren [OF this] obtain new where "now_calls w' = now_calls ?w3" "trace w' = trace ?w3 @ new"
      "\<forall>ev\<in>set new. \<not> is_FileWrite ev" by blast
    then have "now_calls w' = now_calls w"
      "trace w' = trace w @ ([Rmtree d, Makedirs d, SnapshotDownload (competition_repo E) d revision] @ new)"
      "\<forall>ev\<in>set ([Rmtree d, Makedirs d, SnapshotDownload (competition_repo E) d revision] @ new). \<not> is_FileWrite ev"
      using t3 by simp_all
    then show ?thesis by blast
  next
    case (Some e)
    show ?thesis
    proof (cases "is_Exception e")
      case True
      let ?w4 = "?w3\<lparr>trace := trace ?w3 @ [LogError e]\<rparr>"
      from True Some assms ld dl
      have "os_rename (os_path_join d ''data.jsonl'') (os_path_join d name) ?w4 = (r, w')" by simp
      from ren [OF this] obtain new where "now_calls w' = now_calls ?w4" "trace w' = trace ?w4 @ new"
        "\<forall>ev\<in>set new. \<not> is_FileWrite ev" by blast
      then have "now_calls w' = now_calls w"
        "trace w' = trace w @ ([Rmtree d, Makedirs d, SnapshotDownload (competition_repo E) d revision, LogError e] @ new)"
        "\<forall>ev\<in>set ([Rmtree d, Makedirs d, SnapshotDownload (competition_repo E) d revision, LogError e] @ new). \<not> is_FileWrite ev"
        using t3 by simp_all
      then show ?thesis by blast
    next
      case False
      with Some assms ld dl have "w' = ?w3" by simp
      then have "now_calls w' = now_calls w"
        "trace w' = trace w @ [Rmtree d, Makedirs d, SnapshotDownload (competition_repo E) d revision]"
        using t3 by simp_all
      then show ?thesis by auto
    qed
  qed
qed

lemma refresh_gate_general:
  assumes "refresh_gate E cfg w = (Inr name, w1)"
  shows "name = ''eval_data_'' @ strftime_YmdH (clock E (now_calls w)) @ ''.jsonl''
       \<and> now_calls w1 = Suc (now_calls w)
       \<and> (\<exists>new. trace w1 = trace w @ new \<and> (\<forall>ev\<in>set new. \<not> is_FileWrite ev))"
proof -
  let ?name = "''eval_data_'' @ strftime_YmdH (clock E (now_calls w)) @ ''.jsonl''"
  let ?w0 = "w\<lparr>now_calls := Suc (now_calls w)\<rparr>"
  show ?thesis
  proof (cases "files w (os_path_join (eval_data_dir cfg) ?name)")
    case (Some ds)
    from refresh_gate_present [OF this] assms have "name = ?name" "w1 = ?w0" by simp_all
    then show ?thesis by simp
  next
    case None
    obtain r w2 where l: "load_dataset E (eval_data_dir cfg) ?name ?w0 = (r, w2)"
      by (cases "load_dataset E (eval_data_dir cfg) ?name ?w0")
    from None l have "refresh_gate E cfg w = (case r of Inl e \<Rightarrow> Inl e | Inr u \<Rightarrow> Inr ?name, w2)"
      by (cases r) (simp_all add: refresh_gate_def datetime_now_def Let_def)
    with assms have "name = ?name" "w1 = w2" by (cases r; simp)+
    moreover from load_dataset_no_write [OF l]
    have "now_calls w2 = Suc (now_calls w)"
      "\<exists>new. trace w2 = trace w @ new \<and> (\<forall>ev\<in>set new. \<not> is_FileWrite ev)" by simp_all
    ultimately show ?thesis by simp
  qed
qed

lemma make_submission_needs_file:
  "make_submission E d name sub sz w = (Inr path, w2) \<Longrightarrow> \<exists>ds. files w (os_path_join d name) = Some ds"
  by (cases "files w (os_path_join d name)") (simp_all add: make_submission_def load_jsonl_def)

text \<open>
  Claim C6. When the eval file named with the key of the run's first clock reading
  exists, the gate only reads the clock: \<^verbatim>\<open>load_dataset\<close> is not called. Nothing the run
  does before the announce loop is an event of the refresh (\<^verbatim>\<open>rmtree\<close>, snapshot
  download, rename), and neither is anything a returning run of \<^verbatim>\<open>main\<close> does. The eval
  file keeps its content, and the submission is a permutation of it.
\<close>

theorem refresh_gate_skips_fetch:
  assumes ex: "files w (os_path_join (eval_data_dir cfg)
                  (''eval_data_'' @ strftime_YmdH (clock E (now_calls w)) @ ''.jsonl'')) = Some ds"
    and v0: "valid_datetime (clock E (now_calls w))"
    and v1: "valid_datetime (clock E (Suc (now_calls w)))"
  shows "refresh_gate E cfg w =
           (Inr (''eval_data_'' @ strftime_YmdH (clock E (now_calls w)) @ ''.jsonl''),
            w\<lparr>now_calls := Suc (now_calls w)\<rparr>)
       \<and> (\<exists>r w' new.
             main_prepare E cfg w = (r, w')
           \<and> trace w' = trace w @ new \<and> (\<forall>ev\<in>set new. \<not> is_fetch ev)
           \<and> files w' (os_path_join (eval_data_dir cfg)
                  (''eval_data_'' @ strftime_YmdH (clock E (now_calls w)) @ ''.jsonl'')) = Some ds
           \<and> (preflight E = None \<longrightarrow>
                (\<exists>out. files w' (os_path_join (submission_dir cfg)
                           (''submission_'' @ strftime_YmdH (clock E (Suc (now_calls w))) @ ''.jsonl''))
                         = Some out
                     \<and> mset out = mset ds)))
       \<and> (\<forall>r w'. main E cfg w = Some (r, w') \<longrightarrow>
             (\<exists>new. trace w' = trace w @ new \<and> (\<forall>ev\<in>set new. \<not> is_fetch ev))
           \<and> files w' (os_path_join (eval_data_dir cfg)
                  (''eval_data_'' @ strftime_YmdH (clock E (now_calls w)) @ ''.jsonl'')) = Some ds)"
proof -
  let ?ep = "os_path_join (eval_data_dir cfg)
                  (''eval_data_'' @ strftime_YmdH (clock E (now_calls w)) @ ''.jsonl'')"
  let ?sp = "os_path_join (submission_dir cfg)
                  (''submission_'' @ strftime_YmdH (clock E (Suc (now_calls w))) @ ''.jsonl'')"
  let ?out = "random_shuffle (rng E) ds"
  let ?w3 = "w\<lparr>files := (files w)(?sp \<mapsto> ?out), now_calls := Suc (Suc (now_calls w)),
                 trace := trace w @ [Makedirs (submission_dir cfg), FileWrite ?sp,
                                     Upload (hf_repo_id cfg) ?sp]\<rparr>"
  have ne: "?ep \<noteq> ?sp"
    using strftime_digits [OF v0] strftime_digits [OF v1] by (rule eval_submission_paths_differ)
  have gate: "refresh_gate E cfg w =
           (Inr (''eval_data_'' @ strftime_YmdH (clock E (now_calls w)) @ ''.jsonl''),
            w\<lparr>now_calls := Suc (now_calls w)\<rparr>)"
    using ex by (rule refresh_gate_present)
  have prep: "\<exists>r w' new.
             main_prepare E cfg w = (r, w')
           \<and> trace w' = trace w @ new \<and> (\<forall>ev\<in>set new. \<not> is_fetch ev)
           \<and> files w' ?ep = Some ds
           \<and> (preflight E = None \<longrightarrow> (\<exists>out. files w' ?sp = Some out \<and> mset out = mset ds))"
  proof (cases "preflight E")
    case (Some e)
    then have "main_prepare E cfg w = (Inl e, w)" by (simp add: main_prepare_def)
    moreover have "trace w = trace w @ []" by simp
    ultimately show ?thesis using ex Some by (intro exI [of _ "Inl e"] exI [of _ w] exI [of _ "[]"]) simp
  next
    case None
    have m: "main_prepare E cfg w =
        (case upload_data E (hf_repo_id cfg) ?sp ?out of
           Inl e \<Rightarrow> (Inl e, ?w3)
         | Inr commit_id \<Rightarrow>
             (Inr \<lparr>namespace = hf_repo_id cfg, commit = commit_id,
                   competition_id = competition_ident E\<rparr>, ?w3))"
      using main_prepare_present [OF None ex] by (simp only: Let_def)
    then obtain r where r: "main_prepare E cfg w = (r, ?w3)"
      by (cases "upload_data E (hf_repo_id cfg) ?sp ?out") simp_all
    have t: "trace ?w3 = trace w @ [Makedirs (submission_dir cfg), FileWrite ?sp, Upload (hf_repo_id cfg) ?sp]"
      by simp
    have nf: "\<forall>ev\<in>set [Makedirs (submission_dir cfg), FileWrite ?sp, Upload (hf_repo_id cfg) ?sp]. \<not> is_fetch ev"
      by simp
    have fe: "files ?w3 ?ep = Some ds" using ne ex by simp
    have fs: "files ?w3 ?sp = Some ?out" by simp
    have ms: "mset ?out = mset ds" by (rule random_shuffle_mset)
    from r t nf fe fs ms show ?thesis by blast
  qed
  have run: "\<forall>r w'. main E cfg w = Some (r, w') \<longrightarrow>
             (\<exists>new. trace w' = trace w @ new \<and> (\<forall>ev\<in>set new. \<not> is_fetch ev))
           \<and> files w' ?ep = Some ds"
  proof (intro allI impI)
    fix r w' assume a: "main E cfg w = Some (r, w')"
    from prep obtain r1 w1 new1 where p: "main_prepare E cfg w = (r1, w1)"
      "trace w1 = trace w @ new1" "\<forall>ev\<in>set new1. \<not> is_fetch ev" "files w1 ?ep = Some ds"
      by blast
    show "(\<exists>new. trace w' = trace w @ new \<and> (\<forall>ev\<in>set new. \<not> is_fetch ev))
           \<and> files w' ?ep = Some ds"
    proof (cases r1)
      case (Inl e)
      with a p(1) have "w' = w1" by (simp add: main_def)
      with p show ?thesis by blast
    next
      case (Inr mid)
      with a p(1) have "commit_loop E (netuid cfg) mid w1 = Some (r, w')" by (simp add: main_def)
      from commit_loop_events [OF this] obtain new2 where
        "files w' = files w1" "trace w' = trace w1 @ new2" "\<forall>ev\<in>set new2. \<not> is_fetch ev"
        by auto
      with p have "trace w' = trace w @ (new1 @ new2)" "\<forall>ev\<in>set (new1 @ new2). \<not> is_fetch ev"
        "files w' ?ep = Some ds" by auto
      then show ?thesis by blast
    qed
  qed
  from gate prep run show ?thesis by blast
qed

lemma demo_eval_path:
  "os_path_join (eval_data_dir demo_config)
       (''eval_data_'' @ strftime_YmdH (clock demo_env_accept (now_calls demo_world_10000)) @ ''.jsonl'')
   = ''data/eval_data/eval_data_2026110410.jsonl''"
proof -
  have n: "now_calls demo_world_10000 = 0" by (simp add: demo_world_10000_def)
  show ?thesis unfolding n by code_simp
qed

theorem refresh_gate_skips_fetch_witness:
  "files demo_world_10000 (os_path_join (eval_data_dir demo_config)
       (''eval_data_'' @ strftime_YmdH (clock demo_env_accept (now_calls demo_world_10000)) @ ''.jsonl''))
     = Some ten_thousand_records
   \<and> valid_datetime (clock demo_env_accept (now_calls demo_world_10000))
   \<and> valid_datetime (clock demo_env_accept (Suc (now_calls demo_world_10000)))
   \<and> preflight demo_env_accept = None
   \<and> (\<exists>r w' new. main_prepare demo_env_accept demo_config demo_world_10000 = (r, w')
          \<and> trace w' = trace demo_world_10000 @ new \<and> \<not> list_ex is_fetch new)"
proof -
  have a: "files demo_world_10000 (os_path_join (eval_data_dir demo_config)
       (''eval_data_'' @ strftime_YmdH (clock demo_env_accept (now_calls demo_world_10000)) @ ''.jsonl''))
     = Some ten_thousand_records"
    unfolding demo_eval_path by (simp add: demo_world_10000_def)
  have n: "now_calls demo_world_10000 = 0" by (simp add: demo_world_10000_def)
  have b: "valid_datetime (clock demo_env_accept (now_calls demo_world_10000))"
    unfolding n by code_simp
  have c: "valid_datetime (clock demo_env_accept (Suc (now_calls demo_world_10000)))"
    unfolding n by code_simp
  have d: "preflight demo_env_accept = None" by code_simp
  from refresh_gate_skips_fetch [OF a b c]
  obtain r w' new where "main_prepare demo_env_accept demo_config demo_world_10000 = (r, w')"
    "trace w' = trace demo_world_10000 @ new" "\<forall>ev\<in>set new. \<not> is_fetch ev" by blast
  then have "\<exists>r w' new. main_prepare demo_env_accept demo_config demo_world_10000 = (r, w')
          \<and> trace w' = trace demo_world_10000 @ new \<and> \<not> list_ex is_fetch new"
    by (auto simp: list_ex_iff)
  with a b c d show ?thesis by blast
qed

end
